theory Spec2Isabelle
  imports Main "HOL-Library.Word"
begin

section \<open>The intermediate representation\<close>

text \<open>
  The shader recompiler's IR as the sources under \<^verbatim>\<open>shader_recompiler/frontend/ir\<close>
  and \<^verbatim>\<open>shader_recompiler/ir_opt\<close> use it. Pointers to blocks and to instructions
  are natural numbers (handles); the object pools are total functions from handles.
\<close>

datatype error = InvalidArgument | NotImplemented | LogicError

datatype Type =
    Void | Opaque | Label | Reg | Pred | Attribute | Patch
  | U1 | U8 | U16 | U32 | U64 | F16 | F32 | F64
  | U32x2 | U32x3 | U32x4 | F16x2 | F16x3 | F16x4
  | F32x2 | F32x3 | F32x4 | F64x2 | F64x3 | F64x4

text \<open>\<^verbatim>\<open>IR::Reg\<close>: the general registers R0..R254 and the zero register RZ;
  \<^verbatim>\<open>IR::Pred\<close>: the predicates P0..P6 and the true predicate PT.\<close>

datatype Reg = R nat | RZ

datatype Pred = P nat | PT

text \<open>\<^verbatim>\<open>IR::Value\<close>: an immediate of one of the types, or a handle to an instruction.
  \<open>Empty\<close> is the default-constructed value (\<^verbatim>\<open>IR::Value{}\<close>, of type Void). Floating-point
  payloads are kept as their bit patterns; nothing here computes with them.\<close>

datatype Value =
    Empty
  | InstRef nat
  | ImmLabel nat
  | ImmReg Reg
  | ImmPred Pred
  | ImmU1 bool
  | ImmU8 "8 word"
  | ImmU16 "16 word"
  | ImmU32 "32 word"
  | ImmU64 "64 word"
  | ImmF32 "32 word"
  | ImmF64 "64 word"

datatype Opcode =
    Phi | Identity | Branch | BranchConditional | LoopMerge | SelectionMerge | Return
  | GetRegister | SetRegister | GetPred | SetPred
  | GetGotoVariable | SetGotoVariable
  | GetIndirectBranchVariable | SetIndirectBranchVariable
  | GetZFlag | GetSFlag | GetCFlag | GetOFlag
  | SetZFlag | SetSFlag | SetCFlag | SetOFlag
  | UndefU1 | UndefU8 | UndefU16 | UndefU32 | UndefU64
  | LogicalNot | IAdd32
  | FPAdd16 | FPAdd32 | FPAdd64
  | CompositeConstructU32x2 | CompositeConstructU32x3 | CompositeConstructU32x4
  | CompositeConstructF16x2 | CompositeConstructF16x3 | CompositeConstructF16x4
  | CompositeConstructF32x2 | CompositeConstructF32x3 | CompositeConstructF32x4
  | CompositeConstructF64x2 | CompositeConstructF64x3 | CompositeConstructF64x4
  | CompositeExtractU32x2 | CompositeExtractU32x3 | CompositeExtractU32x4
  | CompositeExtractF16x2 | CompositeExtractF16x3 | CompositeExtractF16x4
  | CompositeExtractF32x2 | CompositeExtractF32x3 | CompositeExtractF32x4
  | CompositeExtractF64x2 | CompositeExtractF64x3 | CompositeExtractF64x4
  | ConvertU32U64 | ConvertU64U32

datatype FpRounding = DontCare | RN | RM | RP | RZ_round

datatype FmzMode = FmzDontCare | FTZ | FMZ | FmzNone

record FpControl =
  no_contraction :: bool
  rounding :: FpRounding
  fmz_mode :: FmzMode

text \<open>\<^verbatim>\<open>IR::Inst\<close>: opcode, flags payload, operands; a phi keeps its operands as pairs of
  predecessor block and value. The use count is not stored: it is the number of operands
  that refer to the instruction (\<open>Uses\<close> below).\<close>

record Inst =
  opcode :: Opcode
  flags :: "FpControl option"
  args :: "Value list"
  phi_args :: "(nat \<times> Value) list"

text \<open>\<^verbatim>\<open>IR::Block\<close>: the instruction list, the immediate predecessors in insertion
  order, and the successors set by \<^verbatim>\<open>SetBranch\<close> and \<^verbatim>\<open>SetBranches\<close>.\<close>

record Block =
  instructions :: "nat list"
  imm_predecessors :: "nat list"
  branch_true :: "nat option"
  branch_false :: "nat option"

record IR =
  inst_of :: "nat \<Rightarrow> Inst"
  num_insts :: nat
  block_of :: "nat \<Rightarrow> Block"

text \<open>Modelled from the spec: the opcode table (\<^verbatim>\<open>opcodes.inc\<close>) is not in src. Each
  opcode has a static signature: the result type, derived from the opcode, and the types
  of the operands.\<close>

fun TypeOf :: "Opcode \<Rightarrow> Type" where
  "TypeOf Phi = Opaque"
| "TypeOf Identity = Opaque"
| "TypeOf GetRegister = U32"
| "TypeOf GetPred = U1"
| "TypeOf GetGotoVariable = U1"
| "TypeOf GetIndirectBranchVariable = U32"
| "TypeOf GetZFlag = U1"
| "TypeOf GetSFlag = U1"
| "TypeOf GetCFlag = U1"
| "TypeOf GetOFlag = U1"
| "TypeOf UndefU1 = U1"
| "TypeOf UndefU8 = U8"
| "TypeOf UndefU16 = U16"
| "TypeOf UndefU32 = U32"
| "TypeOf UndefU64 = U64"
| "TypeOf LogicalNot = U1"
| "TypeOf IAdd32 = U32"
| "TypeOf FPAdd16 = F16"
| "TypeOf FPAdd32 = F32"
| "TypeOf FPAdd64 = F64"
| "TypeOf CompositeConstructU32x2 = U32x2"
| "TypeOf CompositeConstructU32x3 = U32x3"
| "TypeOf CompositeConstructU32x4 = U32x4"
| "TypeOf CompositeConstructF16x2 = F16x2"
| "TypeOf CompositeConstructF16x3 = F16x3"
| "TypeOf CompositeConstructF16x4 = F16x4"
| "TypeOf CompositeConstructF32x2 = F32x2"
| "TypeOf CompositeConstructF32x3 = F32x3"
| "TypeOf CompositeConstructF32x4 = F32x4"
| "TypeOf CompositeConstructF64x2 = F64x2"
| "TypeOf CompositeConstructF64x3 = F64x3"
| "TypeOf CompositeConstructF64x4 = F64x4"
| "TypeOf CompositeExtractU32x2 = U32"
| "TypeOf CompositeExtractU32x3 = U32"
| "TypeOf CompositeExtractU32x4 = U32"
| "TypeOf CompositeExtractF16x2 = F16"
| "TypeOf CompositeExtractF16x3 = F16"
| "TypeOf CompositeExtractF16x4 = F16"
| "TypeOf CompositeExtractF32x2 = F32"
| "TypeOf CompositeExtractF32x3 = F32"
| "TypeOf CompositeExtractF32x4 = F32"
| "TypeOf CompositeExtractF64x2 = F64"
| "TypeOf CompositeExtractF64x3 = F64"
| "TypeOf CompositeExtractF64x4 = F64"
| "TypeOf ConvertU32U64 = U32"
| "TypeOf ConvertU64U32 = U64"
| "TypeOf _ = Void"

fun ArgTypes :: "Opcode \<Rightarrow> Type list" where
  "ArgTypes Identity = [Opaque]"
| "ArgTypes Branch = [Label]"
| "ArgTypes BranchConditional = [U1, Label, Label]"
| "ArgTypes LoopMerge = [Label, Label]"
| "ArgTypes SelectionMerge = [Label]"
| "ArgTypes GetRegister = [Reg]"
| "ArgTypes SetRegister = [Reg, U32]"
| "ArgTypes GetPred = [Pred]"
| "ArgTypes SetPred = [Pred, U1]"
| "ArgTypes GetGotoVariable = [U32]"
| "ArgTypes SetGotoVariable = [U32, U1]"
| "ArgTypes SetIndirectBranchVariable = [U32]"
| "ArgTypes SetZFlag = [U1]"
| "ArgTypes SetSFlag = [U1]"
| "ArgTypes SetCFlag = [U1]"
| "ArgTypes SetOFlag = [U1]"
| "ArgTypes LogicalNot = [U1]"
| "ArgTypes IAdd32 = [U32, U32]"
| "ArgTypes FPAdd16 = [F16, F16]"
| "ArgTypes FPAdd32 = [F32, F32]"
| "ArgTypes FPAdd64 = [F64, F64]"
| "ArgTypes CompositeConstructU32x2 = [U32, U32]"
| "ArgTypes CompositeConstructU32x3 = [U32, U32, U32]"
| "ArgTypes CompositeConstructU32x4 = [U32, U32, U32, U32]"
| "ArgTypes CompositeConstructF16x2 = [F16, F16]"
| "ArgTypes CompositeConstructF16x3 = [F16, F16, F16]"
| "ArgTypes CompositeConstructF16x4 = [F16, F16, F16, F16]"
| "ArgTypes CompositeConstructF32x2 = [F32, F32]"
| "ArgTypes CompositeConstructF32x3 = [F32, F32, F32]"
| "ArgTypes CompositeConstructF32x4 = [F32, F32, F32, F32]"
| "ArgTypes CompositeConstructF64x2 = [F64, F64]"
| "ArgTypes CompositeConstructF64x3 = [F64, F64, F64]"
| "ArgTypes CompositeConstructF64x4 = [F64, F64, F64, F64]"
| "ArgTypes CompositeExtractU32x2 = [U32x2, U32]"
| "ArgTypes CompositeExtractU32x3 = [U32x3, U32]"
| "ArgTypes CompositeExtractU32x4 = [U32x4, U32]"
| "ArgTypes CompositeExtractF16x2 = [F16x2, U32]"
| "ArgTypes CompositeExtractF16x3 = [F16x3, U32]"
| "ArgTypes CompositeExtractF16x4 = [F16x4, U32]"
| "ArgTypes CompositeExtractF32x2 = [F32x2, U32]"
| "ArgTypes CompositeExtractF32x3 = [F32x3, U32]"
| "ArgTypes CompositeExtractF32x4 = [F32x4, U32]"
| "ArgTypes CompositeExtractF64x2 = [F64x2, U32]"
| "ArgTypes CompositeExtractF64x3 = [F64x3, U32]"
| "ArgTypes CompositeExtractF64x4 = [F64x4, U32]"
| "ArgTypes ConvertU32U64 = [U64]"
| "ArgTypes ConvertU64U32 = [U32]"
| "ArgTypes _ = []"

text \<open>Modelled from the spec: \<^verbatim>\<open>Value::Type\<close> (value.cpp) is not in src. The type of
  an immediate is its tag, the type of an instruction handle is the result type of the
  instruction's opcode.\<close>

fun Type_of :: "IR \<Rightarrow> Value \<Rightarrow> Type" where
  "Type_of ir Empty = Void"
| "Type_of ir (InstRef i) = TypeOf (opcode (inst_of ir i))"
| "Type_of ir (ImmLabel _) = Label"
| "Type_of ir (ImmReg _) = Reg"
| "Type_of ir (ImmPred _) = Pred"
| "Type_of ir (ImmU1 _) = U1"
| "Type_of ir (ImmU8 _) = U8"
| "Type_of ir (ImmU16 _) = U16"
| "Type_of ir (ImmU32 _) = U32"
| "Type_of ir (ImmU64 _) = U64"
| "Type_of ir (ImmF32 _) = F32"
| "Type_of ir (ImmF64 _) = F64"

text \<open>Modelled from the spec: \<^verbatim>\<open>Block::PrependNewInst\<close> (basic_block.cpp) is not in
  src. It takes a fresh instruction from the pool, gives it the opcode, flags and
  operands, and links it into the block's list in front of the insertion point (an
  index into the list here). It returns the new instruction. The pass calls it without
  operands, on \<^verbatim>\<open>Phi\<close> and the undef opcodes, whose signatures have none.\<close>

definition PrependNewInst ::
  "nat \<Rightarrow> nat \<Rightarrow> Opcode \<Rightarrow> FpControl option \<Rightarrow> Value list \<Rightarrow> IR \<Rightarrow> nat \<times> IR" where
  "PrependNewInst b pos op fl as ir =
     (let n = num_insts ir;
          blk = block_of ir b;
          l = instructions blk
      in (n, ir\<lparr>inst_of := (inst_of ir)(n := \<lparr>opcode = op, flags = fl, args = as, phi_args = []\<rparr>),
                num_insts := Suc n,
                block_of := (block_of ir)(b := blk\<lparr>instructions := take pos l @ [n] @ drop pos l\<rparr>)\<rparr>))"

text \<open>Modelled from the spec: \<^verbatim>\<open>Block::AddImmediatePredecessor\<close> is not in src. It is
  idempotent and keeps the insertion order.\<close>

definition AddImmediatePredecessor :: "nat \<Rightarrow> nat \<Rightarrow> IR \<Rightarrow> IR" where
  "AddImmediatePredecessor b new_pred ir =
     (let blk = block_of ir b
      in if new_pred \<in> set (imm_predecessors blk) then ir
         else ir\<lparr>block_of := (block_of ir)(b := blk\<lparr>imm_predecessors := imm_predecessors blk @ [new_pred]\<rparr>)\<rparr>)"

text \<open>Modelled from the spec: \<^verbatim>\<open>Block::SetBranch\<close> and \<^verbatim>\<open>Block::SetBranches\<close> are not
  in src. A block has one successor after an unconditional branch and two after a
  conditional one.\<close>

definition SetBranch :: "nat \<Rightarrow> nat \<Rightarrow> IR \<Rightarrow> IR" where
  "SetBranch b label ir =
     ir\<lparr>block_of := (block_of ir)(b := (block_of ir b)\<lparr>branch_true := Some label, branch_false := None\<rparr>)\<rparr>"

definition SetBranches :: "nat \<Rightarrow> nat \<Rightarrow> nat \<Rightarrow> IR \<Rightarrow> IR" where
  "SetBranches b true_label false_label ir =
     ir\<lparr>block_of := (block_of ir)(b := (block_of ir b)\<lparr>branch_true := Some true_label,
                                                      branch_false := Some false_label\<rparr>)\<rparr>"

definition successors :: "IR \<Rightarrow> nat \<Rightarrow> nat list" where
  "successors ir b =
     (case (branch_true (block_of ir b), branch_false (block_of ir b)) of
        (None, _) \<Rightarrow> []
      | (Some t, None) \<Rightarrow> [t]
      | (Some t, Some f) \<Rightarrow> [t, f])"

definition ImmediatePredecessors :: "IR \<Rightarrow> nat \<Rightarrow> nat list" where
  "ImmediatePredecessors ir b = imm_predecessors (block_of ir b)"

section \<open>The IR emitter\<close>

text \<open>\<^verbatim>\<open>IREmitter\<close>: the program under construction and the block being filled.\<close>

record IREmitter =
  ir :: IR
  block :: nat

text \<open>Modelled from the spec: the validation of an insertion is not in src. The number
  of operands is that of the opcode's signature and each operand has the type the
  signature gives it.\<close>

definition ValidArgs :: "IR \<Rightarrow> Opcode \<Rightarrow> Value list \<Rightarrow> bool" where
  "ValidArgs p op as = (map (Type_of p) as = ArgTypes op)"

text \<open>Modelled from the spec: \<^verbatim>\<open>IREmitter::Inst\<close> (ir_emitter.h) is not in src. It
  validates the number and the types of the operands, failing with InvalidArgument on a
  mismatch, creates the instruction at the end of the current block and returns its
  handle.\<close>

definition Inst :: "Opcode \<Rightarrow> FpControl option \<Rightarrow> Value list \<Rightarrow> IREmitter \<Rightarrow> error + Value \<times> IREmitter" where
  "Inst op fl as em =
     (if \<not> ValidArgs (ir em) op as then Inl InvalidArgument
      else let (n, ir') = PrependNewInst (block em) (length (instructions (block_of (ir em) (block em)))) op fl as (ir em)
           in Inr (InstRef n, em\<lparr>ir := ir'\<rparr>))"

definition ThrowInvalidType :: "Type \<Rightarrow> error + 'a" where
  "ThrowInvalidType type = Inl InvalidArgument"

definition Branch :: "nat \<Rightarrow> IREmitter \<Rightarrow> error + Value \<times> IREmitter" where
  "Branch label em =
     (let em1 = em\<lparr>ir := AddImmediatePredecessor label (block em) (ir em)\<rparr>;
          em2 = em1\<lparr>ir := SetBranch (block em1) label (ir em1)\<rparr>
      in Inst Opcode.Branch None [ImmLabel label] em2)"

definition BranchConditional :: "Value \<Rightarrow> nat \<Rightarrow> nat \<Rightarrow> IREmitter \<Rightarrow> error + Value \<times> IREmitter" where
  "BranchConditional condition true_label false_label em =
     (let em1 = em\<lparr>ir := SetBranches (block em) true_label false_label (ir em)\<rparr>;
          em2 = em1\<lparr>ir := AddImmediatePredecessor true_label (block em1) (ir em1)\<rparr>;
          em3 = em2\<lparr>ir := AddImmediatePredecessor false_label (block em2) (ir em2)\<rparr>
      in Inst Opcode.BranchConditional None [condition, ImmLabel true_label, ImmLabel false_label] em3)"

definition LoopMerge :: "nat \<Rightarrow> nat \<Rightarrow> IREmitter \<Rightarrow> error + Value \<times> IREmitter" where
  "LoopMerge merge_block continue_target em =
     Inst Opcode.LoopMerge None [ImmLabel merge_block, ImmLabel continue_target] em"

definition SelectionMerge :: "nat \<Rightarrow> IREmitter \<Rightarrow> error + Value \<times> IREmitter" where
  "SelectionMerge merge_block em = Inst Opcode.SelectionMerge None [ImmLabel merge_block] em"

definition Return :: "IREmitter \<Rightarrow> error + Value \<times> IREmitter" where
  "Return em = Inst Opcode.Return None [] em"

text \<open>\<^verbatim>\<open>IREmitter::FPAdd\<close>. The guard compares \<^verbatim>\<open>a.Type()\<close> with \<^verbatim>\<open>a.Type()\<close>, as the
  source does.\<close>

definition FPAdd :: "Value \<Rightarrow> Value \<Rightarrow> FpControl \<Rightarrow> IREmitter \<Rightarrow> error + Value \<times> IREmitter" where
  "FPAdd a b control em =
     (if Type_of (ir em) a \<noteq> Type_of (ir em) a then Inl InvalidArgument
      else case Type_of (ir em) a of
             F16 \<Rightarrow> Inst FPAdd16 (Some control) [a, b] em
           | F32 \<Rightarrow> Inst FPAdd32 (Some control) [a, b] em
           | F64 \<Rightarrow> Inst FPAdd64 (Some control) [a, b] em
           | _ \<Rightarrow> ThrowInvalidType (Type_of (ir em) a))"

text \<open>\<^verbatim>\<open>IREmitter::CompositeConstruct\<close>, the overload with two elements.\<close>

definition CompositeConstruct2 :: "Value \<Rightarrow> Value \<Rightarrow> IREmitter \<Rightarrow> error + Value \<times> IREmitter" where
  "CompositeConstruct2 e1 e2 em =
     (if Type_of (ir em) e1 \<noteq> Type_of (ir em) e2 then Inl InvalidArgument
      else case Type_of (ir em) e1 of
             U32 \<Rightarrow> Inst CompositeConstructU32x2 None [e1, e2] em
           | F16 \<Rightarrow> Inst CompositeConstructF16x2 None [e1, e2] em
           | F32 \<Rightarrow> Inst CompositeConstructF32x2 None [e1, e2] em
           | F64 \<Rightarrow> Inst CompositeConstructF64x2 None [e1, e2] em
           | _ \<Rightarrow> ThrowInvalidType (Type_of (ir em) e1))"

text \<open>\<^verbatim>\<open>IREmitter::CompositeExtract\<close>; \<open>read\<close> is the lambda of the source, the
  element index a \<^verbatim>\<open>size_t\<close> cast to \<^verbatim>\<open>u32\<close> for the operand.\<close>

definition read :: "Value \<Rightarrow> nat \<Rightarrow> Opcode \<Rightarrow> nat \<Rightarrow> IREmitter \<Rightarrow> error + Value \<times> IREmitter" where
  "read vector element op limit em =
     (if element \<ge> limit then Inl InvalidArgument
      else Inst op None [vector, ImmU32 (word_of_nat element)] em)"

definition CompositeExtract :: "Value \<Rightarrow> nat \<Rightarrow> IREmitter \<Rightarrow> error + Value \<times> IREmitter" where
  "CompositeExtract vector element em =
     (case Type_of (ir em) vector of
        U32x2 \<Rightarrow> read vector element CompositeExtractU32x2 2 em
      | U32x3 \<Rightarrow> read vector element CompositeExtractU32x3 3 em
      | U32x4 \<Rightarrow> read vector element CompositeExtractU32x4 4 em
      | F16x2 \<Rightarrow> read vector element CompositeExtractF16x2 2 em
      | F16x3 \<Rightarrow> read vector element CompositeExtractF16x3 3 em
      | F16x4 \<Rightarrow> read vector element CompositeExtractF16x4 4 em
      | F32x2 \<Rightarrow> read vector element CompositeExtractF32x2 2 em
      | F32x3 \<Rightarrow> read vector element CompositeExtractF32x3 3 em
      | F32x4 \<Rightarrow> read vector element CompositeExtractF32x4 4 em
      | F64x2 \<Rightarrow> read vector element CompositeExtractF64x2 2 em
      | F64x3 \<Rightarrow> read vector element CompositeExtractF64x3 3 em
      | F64x4 \<Rightarrow> read vector element CompositeExtractF64x4 4 em
      | _ \<Rightarrow> ThrowInvalidType (Type_of (ir em) vector))"

text \<open>\<^verbatim>\<open>IREmitter::ConvertU\<close>: the nested switch, with both fall-throughs to the final
  throw.\<close>

definition ConvertU :: "nat \<Rightarrow> Value \<Rightarrow> IREmitter \<Rightarrow> error + Value \<times> IREmitter" where
  "ConvertU result_bitsize v em =
     (if result_bitsize = 32 then
        (case Type_of (ir em) v of
           U32 \<Rightarrow> Inr (v, em)
         | U64 \<Rightarrow> Inst ConvertU32U64 None [v] em
         | _ \<Rightarrow> Inl NotImplemented)
      else if result_bitsize = 64 then
        (case Type_of (ir em) v of
           U32 \<Rightarrow> Inst ConvertU64U32 None [v] em
         | U64 \<Rightarrow> Inr (v, em)
         | _ \<Rightarrow> Inl NotImplemented)
      else Inl NotImplemented)"

section \<open>The SSA rewrite pass\<close>

text \<open>The virtual variables: \<^verbatim>\<open>Variant\<close> of the source, a sum of \<^verbatim>\<open>IR::Reg\<close>,
  \<^verbatim>\<open>IR::Pred\<close>, the four flag tags, \<^verbatim>\<open>GotoVariable\<close> (with its index) and
  \<^verbatim>\<open>IndirectBranchVariable\<close>.\<close>

datatype Variant =
    VReg Reg | VPred Pred
  | ZeroFlagTag | SignFlagTag | CarryFlagTag | OverflowFlagTag
  | GotoVariable "32 word"
  | IndirectBranchVariable

text \<open>\<^verbatim>\<open>UndefOpcode\<close>: four overloads, for \<^verbatim>\<open>IR::Reg\<close>, \<^verbatim>\<open>IR::Pred\<close>,
  \<^verbatim>\<open>const FlagTag&\<close> and \<^verbatim>\<open>IndirectBranchVariable\<close>. The four flag tags and
  \<^verbatim>\<open>GotoVariable\<close> are declared \<^verbatim>\<open>struct ... : FlagTag\<close>, so a call with any of them
  selects the \<^verbatim>\<open>FlagTag\<close> overload.\<close>

fun UndefOpcode :: "Variant \<Rightarrow> Opcode" where
  "UndefOpcode (VReg _) = UndefU32"
| "UndefOpcode (VPred _) = UndefU1"
| "UndefOpcode ZeroFlagTag = UndefU1"
| "UndefOpcode SignFlagTag = UndefU1"
| "UndefOpcode CarryFlagTag = UndefU1"
| "UndefOpcode OverflowFlagTag = UndefU1"
| "UndefOpcode (GotoVariable _) = UndefU1"
| "UndefOpcode IndirectBranchVariable = UndefU32"

text \<open>The order of \<^verbatim>\<open>std::variant\<close>: by alternative index, then by the payload.\<close>

fun variant_key :: "Variant \<Rightarrow> nat \<times> nat" where
  "variant_key (VReg (R n)) = (0, n)"
| "variant_key (VReg RZ) = (0, 255)"
| "variant_key (VPred (P n)) = (1, n)"
| "variant_key (VPred PT) = (1, 7)"
| "variant_key ZeroFlagTag = (2, 0)"
| "variant_key SignFlagTag = (3, 0)"
| "variant_key CarryFlagTag = (4, 0)"
| "variant_key OverflowFlagTag = (5, 0)"
| "variant_key (GotoVariable i) = (6, unat i)"
| "variant_key IndirectBranchVariable = (7, 0)"

definition variant_less :: "Variant \<Rightarrow> Variant \<Rightarrow> bool" where
  "variant_less a b =
     (fst (variant_key a) < fst (variant_key b) \<or>
      fst (variant_key a) = fst (variant_key b) \<and> snd (variant_key a) < snd (variant_key b))"

text \<open>\<^verbatim>\<open>flat_map<Variant, IR::Inst*>::insert_or_assign\<close>: a list of pairs sorted by key.\<close>

fun insert_or_assign :: "Variant \<Rightarrow> nat \<Rightarrow> (Variant \<times> nat) list \<Rightarrow> (Variant \<times> nat) list" where
  "insert_or_assign k v [] = [(k, v)]"
| "insert_or_assign k v ((k', v') # m) =
     (if k = k' then (k, v) # m
      else if variant_less k k' then (k, v) # (k', v') # m
      else (k', v') # insert_or_assign k v m)"

text \<open>The state of \<^verbatim>\<open>class Pass\<close>, together with the program it rewrites (reached
  through the block pointers in the source). \<^verbatim>\<open>DefTable\<close> holds one \<^verbatim>\<open>ValueMap\<close> per
  variable; \<open>current_def st v\<close> is \<^verbatim>\<open>current_def[v]\<close>.\<close>

record Pass =
  sealed_blocks :: "nat set"
  incomplete_phis :: "nat \<Rightarrow> (Variant \<times> nat) list"
  current_def :: "Variant \<Rightarrow> nat \<Rightarrow> Value option"
  prog :: IR

definition IsPhi :: "IR \<Rightarrow> nat \<Rightarrow> bool" where
  "IsPhi p inst = (opcode (inst_of p inst) = Phi)"

text \<open>Modelled from the spec: \<^verbatim>\<open>Inst::NumArgs\<close> and \<^verbatim>\<open>Inst::Arg\<close> (microinstruction.cpp)
  are not in src. The operands of a phi are the values of its (block, value) pairs;
  reading an operand that the instruction does not have is an InvalidArgument error.\<close>

definition Args :: "IR \<Rightarrow> nat \<Rightarrow> Value list" where
  "Args p inst =
     (if opcode (inst_of p inst) = Phi then map snd (phi_args (inst_of p inst))
      else args (inst_of p inst))"

definition Arg :: "IR \<Rightarrow> nat \<Rightarrow> nat \<Rightarrow> error + Value" where
  "Arg p inst index =
     (if index < length (Args p inst) then Inr (Args p inst ! index) else Inl InvalidArgument)"

text \<open>Modelled from the spec: the accessors \<^verbatim>\<open>Value::Reg\<close>, \<^verbatim>\<open>Value::Pred\<close> and
  \<^verbatim>\<open>Value::U32\<close> (value.cpp) are not in src. Reading a value at a type it does not
  have is a type mismatch, an InvalidArgument error.\<close>

fun Value_Reg :: "Value \<Rightarrow> error + Reg" where
  "Value_Reg (ImmReg r) = Inr r"
| "Value_Reg _ = Inl InvalidArgument"

fun Value_Pred :: "Value \<Rightarrow> error + Pred" where
  "Value_Pred (ImmPred p) = Inr p"
| "Value_Pred _ = Inl InvalidArgument"

fun Value_U32 :: "Value \<Rightarrow> error + 32 word" where
  "Value_U32 (ImmU32 w) = Inr w"
| "Value_U32 _ = Inl InvalidArgument"

text \<open>Modelled from the spec: \<^verbatim>\<open>Value::IsEmpty\<close> and \<^verbatim>\<open>Value::Resolve\<close> are not in src.
  The spec's values are immediates or instruction handles, compared as they are, and a
  replaced instruction is substituted in its users: there is nothing for \<^verbatim>\<open>Resolve\<close> to
  look through.\<close>

definition IsEmpty :: "Value \<Rightarrow> bool" where
  "IsEmpty v = (v = Empty)"

definition Resolve :: "Value \<Rightarrow> Value" where
  "Resolve v = v"

text \<open>Modelled from the spec: \<^verbatim>\<open>Inst::AddPhiOperand\<close> is not in src. It appends the pair
  (predecessor, value) to the phi's operands.\<close>

definition AddPhiOperand :: "nat \<Rightarrow> nat \<Rightarrow> Value \<Rightarrow> IR \<Rightarrow> IR" where
  "AddPhiOperand phi predecessor v p =
     p\<lparr>inst_of := (inst_of p)(phi := (inst_of p phi)\<lparr>phi_args := phi_args (inst_of p phi) @ [(predecessor, v)]\<rparr>)\<rparr>"

text \<open>Modelled from the spec: \<^verbatim>\<open>Inst::ReplaceUsesWith\<close> is not in src. In every
  instruction that holds the target as an operand, the replacement is substituted.\<close>

definition replace_value :: "nat \<Rightarrow> Value \<Rightarrow> Value \<Rightarrow> Value" where
  "replace_value target replacement v = (if v = InstRef target then replacement else v)"

definition ReplaceUsesWith :: "nat \<Rightarrow> Value \<Rightarrow> IR \<Rightarrow> IR" where
  "ReplaceUsesWith target replacement p =
     p\<lparr>inst_of := (\<lambda>j. (inst_of p j)
          \<lparr>args := map (replace_value target replacement) (args (inst_of p j)),
           phi_args := map (\<lambda>(b, v). (b, replace_value target replacement v)) (phi_args (inst_of p j))\<rparr>)\<rparr>"

text \<open>The uses of an instruction: the instructions of the pool that hold it as an
  operand.\<close>

definition operands :: "Inst \<Rightarrow> Value list" where
  "operands i = args i @ map snd (phi_args i)"

definition HasUses :: "IR \<Rightarrow> nat \<Rightarrow> bool" where
  "HasUses p inst = (\<exists>j < num_insts p. InstRef inst \<in> set (operands (inst_of p j)))"

definition WriteVariable :: "Variant \<Rightarrow> nat \<Rightarrow> Value \<Rightarrow> Pass \<Rightarrow> Pass" where
  "WriteVariable variable b v st =
     st\<lparr>current_def := (current_def st)(variable := (current_def st variable)(b \<mapsto> v))\<rparr>"

text \<open>The loop of \<^verbatim>\<open>TryRemoveTrivialPhi\<close> over the phi's operands: \<open>None\<close> is the early
  return (the phi merges two values), \<open>Some same\<close> the value of \<^verbatim>\<open>same\<close> after the
  loop.\<close>

fun TryRemoveTrivialPhi_same :: "nat \<Rightarrow> Value \<Rightarrow> Value list \<Rightarrow> Value option" where
  "TryRemoveTrivialPhi_same phi same [] = Some same"
| "TryRemoveTrivialPhi_same phi same (op # ops) =
     (if Resolve op = Resolve same \<or> op = InstRef phi then TryRemoveTrivialPhi_same phi same ops
      else if \<not> IsEmpty same then None
      else TryRemoveTrivialPhi_same phi op ops)"

text \<open>The branch \<^verbatim>\<open>if (same.IsEmpty())\<close>: the phi is unlinked, the undef instruction
  is created in front of the first instruction that is not a phi, and the phi is linked
  in again in front of that same instruction, so behind the undef.\<close>

definition InsertUndef :: "nat \<Rightarrow> nat \<Rightarrow> Opcode \<Rightarrow> IR \<Rightarrow> nat \<times> IR" where
  "InsertUndef phi b undef_opcode p =
     (let list = remove1 phi (instructions (block_of p b));
          p1 = p\<lparr>block_of := (block_of p)(b := (block_of p b)\<lparr>instructions := list\<rparr>)\<rparr>;
          first_not_phi = length (takeWhile (IsPhi p1) list);
          (undef, p2) = PrependNewInst b first_not_phi undef_opcode None [] p1;
          list2 = instructions (block_of p2 b);
          p3 = p2\<lparr>block_of := (block_of p2)(b := (block_of p2 b)
                  \<lparr>instructions := take (Suc first_not_phi) list2 @ [phi] @ drop (Suc first_not_phi) list2\<rparr>)\<rparr>
      in (undef, p3))"

definition TryRemoveTrivialPhi :: "nat \<Rightarrow> nat \<Rightarrow> Opcode \<Rightarrow> IR \<Rightarrow> Value \<times> IR" where
  "TryRemoveTrivialPhi phi b undef_opcode p =
     (case TryRemoveTrivialPhi_same phi Empty (Args p phi) of
        None \<Rightarrow> (InstRef phi, p)
      | Some same \<Rightarrow>
          if IsEmpty same then
            (let (undef, p3) = InsertUndef phi b undef_opcode p
             in (InstRef undef, ReplaceUsesWith phi (InstRef undef) p3))
          else (same, ReplaceUsesWith phi same p))"

datatype Status = Start | SetValue | PreparePhiArgument | PushPhiArgument

text \<open>\<^verbatim>\<open>ReadState\<close>: \<open>pred_it\<close> is the range from \<^verbatim>\<open>pred_it\<close> to \<^verbatim>\<open>pred_end\<close>, the
  predecessors still to be read. A null block or phi pointer is \<open>None\<close>.\<close>

record ReadState =
  block :: "nat option"
  result :: Value
  phi :: "nat option"
  pred_it :: "nat list"
  pc :: Status

definition new_ReadState :: "nat option \<Rightarrow> ReadState" where
  "new_ReadState b = \<lparr>block = b, result = Empty, phi = None, pred_it = [], pc = Start\<rparr>"

text \<open>\<^verbatim>\<open>stack.pop_back(); stack.back().result = result;\<close> The top of the stack is the head
  of the list.\<close>

definition pop_back_result :: "Value \<Rightarrow> ReadState list \<Rightarrow> ReadState list" where
  "pop_back_result r stack =
     (case tl stack of [] \<Rightarrow> [] | f # rest \<Rightarrow> f\<lparr>result := r\<rparr> # rest)"

text \<open>The lambda \<^verbatim>\<open>prepare_phi_operand\<close>. \<open>None\<close> stands for a dereferenced null pointer
  or an empty stack, which the loop never reaches from \<open>ReadVariable\<close>.\<close>

definition prepare_phi_operand :: "Variant \<Rightarrow> ReadState list \<times> Pass \<Rightarrow> (ReadState list \<times> Pass) option" where
  "prepare_phi_operand variable c =
     (case c of (stack, st) \<Rightarrow>
      (case stack of [] \<Rightarrow> None | fr # rest \<Rightarrow>
        (case pred_it fr of
           [] \<Rightarrow>
             (case (phi fr, block fr) of
                (Some ph, Some b) \<Rightarrow>
                  (let (res, p') = TryRemoveTrivialPhi ph b (UndefOpcode variable) (prog st)
                   in Some (pop_back_result res stack, WriteVariable variable b res (st\<lparr>prog := p'\<rparr>)))
              | _ \<Rightarrow> None)
         | imm_pred # _ \<Rightarrow>
             Some (new_ReadState (Some imm_pred) # fr\<lparr>pc := PushPhiArgument\<rparr> # rest, st))))"

text \<open>The case \<^verbatim>\<open>Status::SetValue\<close>.\<close>

definition set_value :: "Variant \<Rightarrow> ReadState list \<times> Pass \<Rightarrow> (ReadState list \<times> Pass) option" where
  "set_value variable c =
     (case c of (stack, st) \<Rightarrow>
      (case stack of [] \<Rightarrow> None | fr # rest \<Rightarrow>
        (case block fr of None \<Rightarrow> None | Some b \<Rightarrow>
           Some (pop_back_result (result fr) stack, WriteVariable variable b (result fr) st))))"

text \<open>One turn of the \<^verbatim>\<open>do ... while\<close> loop of \<^verbatim>\<open>ReadVariable\<close>: the switch on
  \<^verbatim>\<open>stack.back().pc\<close>.\<close>

definition ReadVariable_step :: "Variant \<Rightarrow> ReadState list \<times> Pass \<Rightarrow> (ReadState list \<times> Pass) option" where
  "ReadVariable_step variable c =
     (case c of (stack, st) \<Rightarrow>
      (case stack of [] \<Rightarrow> None | fr # rest \<Rightarrow>
        (case block fr of None \<Rightarrow> None | Some b \<Rightarrow>
          (case pc fr of
             Start \<Rightarrow>
               (case current_def st variable b of
                  Some v \<Rightarrow> set_value variable (fr\<lparr>result := v\<rparr> # rest, st)
                | None \<Rightarrow>
                    if b \<notin> sealed_blocks st then
                      (let (ph, p') = PrependNewInst b 0 Phi None [] (prog st);
                           st' = st\<lparr>prog := p',
                                    incomplete_phis := (incomplete_phis st)
                                      (b := insert_or_assign variable ph (incomplete_phis st b))\<rparr>
                       in set_value variable (fr\<lparr>result := InstRef ph\<rparr> # rest, st'))
                    else
                      (let imm_preds = ImmediatePredecessors (prog st) b
                       in if length imm_preds = 1 then
                            Some (new_ReadState (Some (hd imm_preds)) # fr\<lparr>pc := SetValue\<rparr> # rest, st)
                          else
                            (let (ph, p') = PrependNewInst b 0 Phi None [] (prog st);
                                 st' = WriteVariable variable b (InstRef ph) (st\<lparr>prog := p'\<rparr>)
                             in prepare_phi_operand variable
                                  (fr\<lparr>phi := Some ph, pred_it := imm_preds\<rparr> # rest, st'))))
           | SetValue \<Rightarrow> set_value variable (stack, st)
           | PushPhiArgument \<Rightarrow>
               (case (phi fr, pred_it fr) of
                  (Some ph, imm_pred # preds) \<Rightarrow>
                    prepare_phi_operand variable
                      (fr\<lparr>pred_it := preds\<rparr> # rest,
                       st\<lparr>prog := AddPhiOperand ph imm_pred (result fr) (prog st)\<rparr>)
                | _ \<Rightarrow> None)
           | PreparePhiArgument \<Rightarrow> prepare_phi_operand variable (stack, st)))))"

text \<open>The loop \<^verbatim>\<open>do { ... } while (stack.size() > 1)\<close> and the final
  \<^verbatim>\<open>return stack.back().result\<close>. The loop need not end: \<open>None\<close> is "no result".\<close>

partial_function (option) ReadVariable_loop ::
  "Variant \<Rightarrow> ReadState list \<times> Pass \<Rightarrow> (Value \<times> Pass) option" where
  "ReadVariable_loop variable c =
     (case ReadVariable_step variable c of
        None \<Rightarrow> None
      | Some c' \<Rightarrow>
          if length (fst c') > 1 then ReadVariable_loop variable c'
          else (case fst c' of [] \<Rightarrow> None | f # _ \<Rightarrow> Some (result f, snd c')))"

definition ReadVariable :: "Variant \<Rightarrow> nat \<Rightarrow> Pass \<Rightarrow> (Value \<times> Pass) option" where
  "ReadVariable variable root_block st =
     ReadVariable_loop variable ([new_ReadState (Some root_block), new_ReadState None], st)"

text \<open>\<^verbatim>\<open>AddPhiOperands\<close>: the loop over the immediate predecessors, then
  \<^verbatim>\<open>TryRemoveTrivialPhi\<close>.\<close>

fun AddPhiOperands_loop :: "Variant \<Rightarrow> nat \<Rightarrow> nat list \<Rightarrow> Pass \<Rightarrow> Pass option" where
  "AddPhiOperands_loop variable ph [] st = Some st"
| "AddPhiOperands_loop variable ph (imm_pred # preds) st =
     (case ReadVariable variable imm_pred st of
        None \<Rightarrow> None
      | Some (v, st') \<Rightarrow>
          AddPhiOperands_loop variable ph preds (st'\<lparr>prog := AddPhiOperand ph imm_pred v (prog st')\<rparr>))"

definition AddPhiOperands :: "Variant \<Rightarrow> nat \<Rightarrow> nat \<Rightarrow> Pass \<Rightarrow> (Value \<times> Pass) option" where
  "AddPhiOperands variable ph b st =
     (case AddPhiOperands_loop variable ph (ImmediatePredecessors (prog st) b) st of
        None \<Rightarrow> None
      | Some st' \<Rightarrow>
          (let (res, p') = TryRemoveTrivialPhi ph b (UndefOpcode variable) (prog st')
           in Some (res, st'\<lparr>prog := p'\<rparr>)))"

text \<open>\<^verbatim>\<open>SealBlock\<close>: the loop runs over the entries that \<^verbatim>\<open>incomplete_phis[block]\<close> has
  when it starts, in key order.\<close>

fun SealBlock_loop :: "nat \<Rightarrow> (Variant \<times> nat) list \<Rightarrow> Pass \<Rightarrow> Pass option" where
  "SealBlock_loop b [] st = Some st"
| "SealBlock_loop b ((variant, ph) # m) st =
     (case AddPhiOperands variant ph b st of
        None \<Rightarrow> None
      | Some (_, st') \<Rightarrow> SealBlock_loop b m st')"

definition SealBlock :: "nat \<Rightarrow> Pass \<Rightarrow> Pass option" where
  "SealBlock b st =
     (case SealBlock_loop b (incomplete_phis st b) st of
        None \<Rightarrow> None
      | Some st' \<Rightarrow> Some (st'\<lparr>sealed_blocks := insert b (sealed_blocks st')\<rparr>))"

text \<open>\<^verbatim>\<open>VisitInst\<close>. \<open>write_arg\<close> is \<^verbatim>\<open>pass.WriteVariable(v, block, inst.Arg(k))\<close> and
  \<open>read_replace\<close> is \<^verbatim>\<open>inst.ReplaceUsesWith(pass.ReadVariable(v, block))\<close>. The result
  is \<open>None\<close> when \<^verbatim>\<open>ReadVariable\<close> does not return, \<open>Some (Inl e)\<close> when an operand
  accessor throws.\<close>

definition write_arg :: "Variant \<Rightarrow> nat \<Rightarrow> nat \<Rightarrow> nat \<Rightarrow> Pass \<Rightarrow> (error + Pass) option" where
  "write_arg variable b inst k st =
     (case Arg (prog st) inst k of
        Inl e \<Rightarrow> Some (Inl e)
      | Inr v \<Rightarrow> Some (Inr (WriteVariable variable b v st)))"

definition read_replace :: "Variant \<Rightarrow> nat \<Rightarrow> nat \<Rightarrow> Pass \<Rightarrow> (error + Pass) option" where
  "read_replace variable b inst st =
     (case ReadVariable variable b st of
        None \<Rightarrow> None
      | Some (v, st') \<Rightarrow> Some (Inr (st'\<lparr>prog := ReplaceUsesWith inst v (prog st')\<rparr>)))"

definition arg0 :: "(Value \<Rightarrow> error + 'a) \<Rightarrow> nat \<Rightarrow> Pass \<Rightarrow> error + 'a" where
  "arg0 access inst st = (case Arg (prog st) inst 0 of Inl e \<Rightarrow> Inl e | Inr v \<Rightarrow> access v)"

definition VisitInst :: "nat \<Rightarrow> nat \<Rightarrow> Pass \<Rightarrow> (error + Pass) option" where
  "VisitInst b inst st =
     (case opcode (inst_of (prog st) inst) of
        SetRegister \<Rightarrow>
          (case arg0 Value_Reg inst st of
             Inl e \<Rightarrow> Some (Inl e)
           | Inr reg \<Rightarrow> if reg \<noteq> Reg.RZ then write_arg (VReg reg) b inst 1 st else Some (Inr st))
      | SetPred \<Rightarrow>
          (case arg0 Value_Pred inst st of
             Inl e \<Rightarrow> Some (Inl e)
           | Inr pred \<Rightarrow> if pred \<noteq> PT then write_arg (VPred pred) b inst 1 st else Some (Inr st))
      | SetGotoVariable \<Rightarrow>
          (case arg0 Value_U32 inst st of
             Inl e \<Rightarrow> Some (Inl e)
           | Inr index \<Rightarrow> write_arg (GotoVariable index) b inst 1 st)
      | SetIndirectBranchVariable \<Rightarrow> write_arg IndirectBranchVariable b inst 0 st
      | SetZFlag \<Rightarrow> write_arg ZeroFlagTag b inst 0 st
      | SetSFlag \<Rightarrow> write_arg SignFlagTag b inst 0 st
      | SetCFlag \<Rightarrow> write_arg CarryFlagTag b inst 0 st
      | SetOFlag \<Rightarrow> write_arg OverflowFlagTag b inst 0 st
      | GetRegister \<Rightarrow>
          (case arg0 Value_Reg inst st of
             Inl e \<Rightarrow> Some (Inl e)
           | Inr reg \<Rightarrow> if reg \<noteq> Reg.RZ then read_replace (VReg reg) b inst st else Some (Inr st))
      | GetPred \<Rightarrow>
          (case arg0 Value_Pred inst st of
             Inl e \<Rightarrow> Some (Inl e)
           | Inr pred \<Rightarrow> if pred \<noteq> PT then read_replace (VPred pred) b inst st else Some (Inr st))
      | GetGotoVariable \<Rightarrow>
          (case arg0 Value_U32 inst st of
             Inl e \<Rightarrow> Some (Inl e)
           | Inr index \<Rightarrow> read_replace (GotoVariable index) b inst st)
      | GetIndirectBranchVariable \<Rightarrow> read_replace IndirectBranchVariable b inst st
      | GetZFlag \<Rightarrow> read_replace ZeroFlagTag b inst st
      | GetSFlag \<Rightarrow> read_replace SignFlagTag b inst st
      | GetCFlag \<Rightarrow> read_replace CarryFlagTag b inst st
      | GetOFlag \<Rightarrow> read_replace OverflowFlagTag b inst st
      | _ \<Rightarrow> Some (Inr st))"

text \<open>\<^verbatim>\<open>VisitBlock\<close>. Instructions that the pass creates in the block during the loop
  are linked in front of the instruction being visited, so the loop visits the
  instructions the block has when it starts.\<close>

fun VisitBlock_loop :: "nat \<Rightarrow> nat list \<Rightarrow> Pass \<Rightarrow> (error + Pass) option" where
  "VisitBlock_loop b [] st = Some (Inr st)"
| "VisitBlock_loop b (inst # insts) st =
     (case VisitInst b inst st of
        None \<Rightarrow> None
      | Some (Inl e) \<Rightarrow> Some (Inl e)
      | Some (Inr st') \<Rightarrow> VisitBlock_loop b insts st')"

definition VisitBlock :: "nat \<Rightarrow> Pass \<Rightarrow> (error + Pass) option" where
  "VisitBlock b st =
     (case VisitBlock_loop b (instructions (block_of (prog st) b)) st of
        None \<Rightarrow> None
      | Some (Inl e) \<Rightarrow> Some (Inl e)
      | Some (Inr st') \<Rightarrow> (case SealBlock b st' of None \<Rightarrow> None | Some st'' \<Rightarrow> Some (Inr st'')))"

text \<open>\<^verbatim>\<open>IR::Program\<close> as the pass reads it: the blocks in post order, and the pools.\<close>

record Program =
  post_order_blocks :: "nat list"
  code :: IR

definition new_Pass :: "IR \<Rightarrow> Pass" where
  "new_Pass p = \<lparr>sealed_blocks = {}, incomplete_phis = (\<lambda>_. []),
                 current_def = (\<lambda>_. Map.empty), prog = p\<rparr>"

fun SsaRewritePass_loop :: "nat list \<Rightarrow> Pass \<Rightarrow> (error + Pass) option" where
  "SsaRewritePass_loop [] st = Some (Inr st)"
| "SsaRewritePass_loop (b # bs) st =
     (case VisitBlock b st of
        None \<Rightarrow> None
      | Some (Inl e) \<Rightarrow> Some (Inl e)
      | Some (Inr st') \<Rightarrow> SsaRewritePass_loop bs st')"

text \<open>\<^verbatim>\<open>SsaRewritePass\<close>: \<open>None\<close> when the pass does not return, \<open>Some (Inl e)\<close> when it
  throws, \<open>Some (Inr p)\<close> with the rewritten program otherwise.\<close>

definition SsaRewritePass :: "Program \<Rightarrow> (error + Program) option" where
  "SsaRewritePass program =
     (case SsaRewritePass_loop (rev (post_order_blocks program)) (new_Pass (code program)) of
        None \<Rightarrow> None
      | Some (Inl e) \<Rightarrow> Some (Inl e)
      | Some (Inr st) \<Rightarrow> Some (Inr (program\<lparr>code := prog st\<rparr>)))"

section \<open>Notions used to state the properties\<close>

text \<open>\<open>emitted op as em em'\<close>: from \<open>em\<close> to \<open>em'\<close>, one instruction with opcode \<open>op\<close> and
  operands \<open>as\<close> has been created at the end of the current block, under the next free
  handle.\<close>

definition emitted :: "Opcode \<Rightarrow> Value list \<Rightarrow> IREmitter \<Rightarrow> IREmitter \<Rightarrow> bool" where
  "emitted op as em em' =
     (let n = num_insts (ir em) in
      opcode (inst_of (ir em') n) = op \<and> args (inst_of (ir em') n) = as \<and>
      instructions (block_of (ir em') (IREmitter.block em)) =
        instructions (block_of (ir em) (IREmitter.block em)) @ [n] \<and>
      num_insts (ir em') = Suc n \<and> IREmitter.block em' = IREmitter.block em)"

text \<open>The floating-point types and the addition opcode of each.\<close>

fun FPAdd_opcode :: "Type \<Rightarrow> Opcode option" where
  "FPAdd_opcode F16 = Some FPAdd16"
| "FPAdd_opcode F32 = Some FPAdd32"
| "FPAdd_opcode F64 = Some FPAdd64"
| "FPAdd_opcode _ = None"

text \<open>The composite types: the number of elements and the extraction opcode of each.\<close>

fun composite_info :: "Type \<Rightarrow> (nat \<times> Opcode) option" where
  "composite_info U32x2 = Some (2, CompositeExtractU32x2)"
| "composite_info U32x3 = Some (3, CompositeExtractU32x3)"
| "composite_info U32x4 = Some (4, CompositeExtractU32x4)"
| "composite_info F16x2 = Some (2, CompositeExtractF16x2)"
| "composite_info F16x3 = Some (3, CompositeExtractF16x3)"
| "composite_info F16x4 = Some (4, CompositeExtractF16x4)"
| "composite_info F32x2 = Some (2, CompositeExtractF32x2)"
| "composite_info F32x3 = Some (3, CompositeExtractF32x3)"
| "composite_info F32x4 = Some (4, CompositeExtractF32x4)"
| "composite_info F64x2 = Some (2, CompositeExtractF64x2)"
| "composite_info F64x3 = Some (3, CompositeExtractF64x3)"
| "composite_info F64x4 = Some (4, CompositeExtractF64x4)"
| "composite_info _ = None"

text \<open>Concrete programs for the examples: instructions and blocks given as lists, the
  handle of each being its position.\<close>

definition mk_inst :: "Opcode \<Rightarrow> Value list \<Rightarrow> Inst" where
  "mk_inst op as = \<lparr>opcode = op, flags = None, args = as, phi_args = []\<rparr>"

definition mk_block :: "nat list \<times> nat list \<Rightarrow> Block" where
  "mk_block b = \<lparr>instructions = fst b, imm_predecessors = snd b, branch_true = None, branch_false = None\<rparr>"

definition mk_ir :: "Inst list \<Rightarrow> (nat list \<times> nat list) list \<Rightarrow> IR" where
  "mk_ir is bs =
     \<lparr>inst_of = (\<lambda>i. if i < length is then is ! i else mk_inst Identity []),
      num_insts = length is,
      block_of = (\<lambda>b. if b < length bs then mk_block (bs ! b) else mk_block ([], []))\<rparr>"

text \<open>An empty program with three blocks, the emitter at block 0.\<close>

definition em0 :: IREmitter where
  "em0 = \<lparr>ir = mk_ir [] [([], []), ([], []), ([], [])], block = 0\<rparr>"

text \<open>A floating-point control word.\<close>

definition fp0 :: FpControl where
  "fp0 = \<lparr>no_contraction = False, rounding = DontCare, fmz_mode = FmzDontCare\<rparr>"

text \<open>One block: \<^verbatim>\<open>%0 = GetRegister RZ; SetRegister R1, %0\<close>.\<close>

definition sink_ir :: IR where
  "sink_ir = mk_ir [mk_inst GetRegister [ImmReg Reg.RZ],
                    mk_inst SetRegister [ImmReg (R 1), InstRef 0]] [([0, 1], [])]"

definition mk_phi :: "(nat \<times> Value) list \<Rightarrow> Inst" where
  "mk_phi ops = \<lparr>opcode = Phi, flags = None, args = [], phi_args = ops\<rparr>"

text \<open>One block with three phis in front of an addition: a phi of one value and itself,
  a phi of two values, and a phi without operands. Handle 1 is an instruction outside
  the block.\<close>

definition phis_ir :: IR where
  "phis_ir = mk_ir [mk_phi [(1, ImmU32 7), (2, InstRef 0)],
                    mk_inst UndefU32 [],
                    mk_phi [(1, ImmU32 7), (2, ImmU32 8)],
                    mk_phi [],
                    mk_inst IAdd32 [InstRef 0, InstRef 3]] [([0, 2, 3, 4], [1, 2])]"


text \<open>The loop of \<^verbatim>\<open>ReadVariable\<close> seen from the frame on top of the stack: one turn
  either pops the frame, handing a result to the frame below, or changes it and pushes a
  new frame. \<open>top_action\<close> is what \<open>ReadVariable_step\<close> does, as a function of the top frame
  and the state alone (lemma \<open>step_action\<close>); \<open>finish\<close> is the rest of the loop after a
  turn.\<close>

datatype Action = Pop Value | Push ReadState ReadState

definition apply_action :: "Action \<Rightarrow> ReadState list \<Rightarrow> ReadState list" where
  "apply_action a rest =
     (case a of
        Pop v \<Rightarrow> (case rest of [] \<Rightarrow> [] | f # r \<Rightarrow> f\<lparr>result := v\<rparr> # r)
      | Push g fr' \<Rightarrow> g # fr' # rest)"

definition prepare_action :: "Variant \<Rightarrow> ReadState \<Rightarrow> Pass \<Rightarrow> (Action \<times> Pass) option" where
  "prepare_action variable fr st =
     (case pred_it fr of
        [] \<Rightarrow>
          (case (phi fr, block fr) of
             (Some ph, Some b) \<Rightarrow>
               Some (Pop (fst (TryRemoveTrivialPhi ph b (UndefOpcode variable) (prog st))),
                     WriteVariable variable b (fst (TryRemoveTrivialPhi ph b (UndefOpcode variable) (prog st)))
                       (st\<lparr>prog := snd (TryRemoveTrivialPhi ph b (UndefOpcode variable) (prog st))\<rparr>))
           | _ \<Rightarrow> None)
      | imm_pred # _ \<Rightarrow> Some (Push (new_ReadState (Some imm_pred)) (fr\<lparr>pc := PushPhiArgument\<rparr>), st))"

definition new_phi :: "nat \<Rightarrow> Pass \<Rightarrow> Pass" where
  "new_phi b st = st\<lparr>prog := snd (PrependNewInst b 0 Phi None [] (prog st))\<rparr>"

definition top_action :: "Variant \<Rightarrow> ReadState \<Rightarrow> Pass \<Rightarrow> (Action \<times> Pass) option" where
  "top_action variable fr st =
     (case block fr of None \<Rightarrow> None | Some b \<Rightarrow>
       (case pc fr of
          Start \<Rightarrow>
            (case current_def st variable b of
               Some v \<Rightarrow> Some (Pop v, WriteVariable variable b v st)
             | None \<Rightarrow>
                 if b \<notin> sealed_blocks st then
                   Some (Pop (InstRef (num_insts (prog st))),
                         WriteVariable variable b (InstRef (num_insts (prog st)))
                           ((new_phi b st)\<lparr>incomplete_phis := (incomplete_phis st)
                               (b := insert_or_assign variable (num_insts (prog st)) (incomplete_phis st b))\<rparr>))
                 else if length (ImmediatePredecessors (prog st) b) = 1 then
                   Some (Push (new_ReadState (Some (hd (ImmediatePredecessors (prog st) b))))
                              (fr\<lparr>pc := SetValue\<rparr>), st)
                 else
                   prepare_action variable
                     (fr\<lparr>phi := Some (num_insts (prog st)), pred_it := ImmediatePredecessors (prog st) b\<rparr>)
                     (WriteVariable variable b (InstRef (num_insts (prog st))) (new_phi b st)))
        | SetValue \<Rightarrow> Some (Pop (result fr), WriteVariable variable b (result fr) st)
        | PushPhiArgument \<Rightarrow>
            (case (phi fr, pred_it fr) of
               (Some ph, imm_pred # preds) \<Rightarrow>
                 prepare_action variable (fr\<lparr>pred_it := preds\<rparr>)
                   (st\<lparr>prog := AddPhiOperand ph imm_pred (result fr) (prog st)\<rparr>)
             | _ \<Rightarrow> None)
        | PreparePhiArgument \<Rightarrow> prepare_action variable fr st))"

definition finish :: "Variant \<Rightarrow> ReadState list \<times> Pass \<Rightarrow> (Value \<times> Pass) option" where
  "finish variable c =
     (if length (fst c) > 1 then ReadVariable_loop variable c
      else (case fst c of [] \<Rightarrow> None | f # _ \<Rightarrow> Some (result f, snd c)))"

text \<open>Block 0 is sealed and has block 2 as its only predecessor; register R3 is defined
  in block 2 only.\<close>

definition chain_pass :: Pass where
  "chain_pass =
     \<lparr>sealed_blocks = {0, 2},
      incomplete_phis = (\<lambda>_. []),
      current_def = (\<lambda>_. Map.empty)(VReg (R 3) := [2 \<mapsto> ImmU32 5]),
      prog = mk_ir [] [([], [2]), ([], []), ([], [])]\<rparr>"


subsection \<open>Well-formed programs and the order of blocks\<close>

text \<open>A loop at the entry: block 0 ends in a conditional branch to itself or to block 2,
  and block 2 reads R3 and returns. Block 0 is its own only immediate predecessor.\<close>

definition self_loop_program :: Program where
  "self_loop_program =
     \<lparr>post_order_blocks = [2, 0],
      code = mk_ir [mk_inst Opcode.BranchConditional [ImmU1 True, ImmLabel 0, ImmLabel 2],
                    mk_inst Opcode.Return [],
                    mk_inst GetRegister [ImmReg (R 3)]]
                   [([0], [0]), ([], []), ([2, 1], [0])]\<rparr>"

text \<open>Well-formed instructions: an instruction that the pass reads operands of has the
  number of operands of its opcode, and the register, predicate or index operand is an
  immediate of that type. Every handle of the pool is required to hold such an
  instruction.\<close>

fun is_Reg :: "Value \<Rightarrow> bool" where
  "is_Reg (ImmReg _) = True" | "is_Reg _ = False"

fun is_Pred :: "Value \<Rightarrow> bool" where
  "is_Pred (ImmPred _) = True" | "is_Pred _ = False"

fun is_U32 :: "Value \<Rightarrow> bool" where
  "is_U32 (ImmU32 _) = True" | "is_U32 _ = False"

fun valid_operands :: "Opcode \<Rightarrow> Value list \<Rightarrow> bool" where
  "valid_operands SetRegister as = (length as = 2 \<and> is_Reg (as ! 0))"
| "valid_operands SetPred as = (length as = 2 \<and> is_Pred (as ! 0))"
| "valid_operands SetGotoVariable as = (length as = 2 \<and> is_U32 (as ! 0))"
| "valid_operands SetIndirectBranchVariable as = (length as = 1)"
| "valid_operands SetZFlag as = (length as = 1)"
| "valid_operands SetSFlag as = (length as = 1)"
| "valid_operands SetCFlag as = (length as = 1)"
| "valid_operands SetOFlag as = (length as = 1)"
| "valid_operands GetRegister as = (length as = 1 \<and> is_Reg (as ! 0))"
| "valid_operands GetPred as = (length as = 1 \<and> is_Pred (as ! 0))"
| "valid_operands GetGotoVariable as = (length as = 1 \<and> is_U32 (as ! 0))"
| "valid_operands _ as = True"

definition well_formed_inst :: "Inst \<Rightarrow> bool" where
  "well_formed_inst i = valid_operands (opcode i) (args i)"

definition well_formed :: "IR \<Rightarrow> bool" where
  "well_formed p = (\<forall>i. well_formed_inst (inst_of p i))"

text \<open>What every step of the pass keeps: the predecessor lists, the definitions already
  recorded (as defined, not their values) and the well-formedness of the program.\<close>

definition extends :: "Pass \<Rightarrow> Pass \<Rightarrow> bool" where
  "extends st st1 =
     (ImmediatePredecessors (prog st1) = ImmediatePredecessors (prog st) \<and>
      (\<forall>x b. current_def st x b \<noteq> None \<longrightarrow> current_def st1 x b \<noteq> None) \<and>
      (well_formed (prog st) \<longrightarrow> well_formed (prog st1)))"

text \<open>The blocks of \<open>B\<close> without a definition of the variable: their number falls when a
  read creates a phi.\<close>

definition undefined_in :: "nat set \<Rightarrow> Variant \<Rightarrow> Pass \<Rightarrow> nat set" where
  "undefined_in B variable st = {b \<in> B. current_def st variable b = None}"

text \<open>The blocks \<open>B\<close> are finite and closed under immediate predecessors, and a block
  with exactly one immediate predecessor has a greater rank than that predecessor.\<close>

definition ranked :: "nat set \<Rightarrow> (nat \<Rightarrow> nat) \<Rightarrow> (nat \<Rightarrow> nat list) \<Rightarrow> bool" where
  "ranked B rk preds =
     (finite B \<and> (\<forall>b\<in>B. set (preds b) \<subseteq> B) \<and> (\<forall>b\<in>B. \<forall>q. preds b = [q] \<longrightarrow> rk q < rk b))"

text \<open>A diamond: block 0 branches to blocks 2 and 3, which write 1 and 2 to R1 and branch
  to block 4; block 4 reads R1 and writes it to R2.\<close>

definition diamond_program :: Program where
  "diamond_program =
     \<lparr>post_order_blocks = [4, 3, 2, 0],
      code = mk_ir [mk_inst Opcode.BranchConditional [ImmU1 True, ImmLabel 2, ImmLabel 3],
                    mk_inst SetRegister [ImmReg (R 1), ImmU32 1],
                    mk_inst Opcode.Branch [ImmLabel 4],
                    mk_inst SetRegister [ImmReg (R 1), ImmU32 2],
                    mk_inst Opcode.Branch [ImmLabel 4],
                    mk_inst GetRegister [ImmReg (R 1)],
                    mk_inst SetRegister [ImmReg (R 2), InstRef 5],
                    mk_inst Opcode.Return []]
                   [([0], []), ([], []), ([1, 2], [0]), ([3, 4], [0]), ([5, 6, 7], [2, 3])]\<rparr>"

subsection \<open>Reads replaced by the pass\<close>

text \<open>The variable that \<^verbatim>\<open>VisitInst\<close> reads for an instruction with this opcode and these
  operands; none for an opcode that is not a variable read, and none for RZ and PT.\<close>

definition variable_read :: "Opcode \<Rightarrow> Value list \<Rightarrow> Variant option" where
  "variable_read op as =
     (if op = GetRegister then
        (case as of [] \<Rightarrow> None | v # _ \<Rightarrow>
           (case Value_Reg v of Inl _ \<Rightarrow> None | Inr r \<Rightarrow> if r = Reg.RZ then None else Some (VReg r)))
      else if op = GetPred then
        (case as of [] \<Rightarrow> None | v # _ \<Rightarrow>
           (case Value_Pred v of Inl _ \<Rightarrow> None | Inr q \<Rightarrow> if q = PT then None else Some (VPred q)))
      else if op = GetGotoVariable then
        (case as of [] \<Rightarrow> None | v # _ \<Rightarrow>
           (case Value_U32 v of Inl _ \<Rightarrow> None | Inr w \<Rightarrow> Some (GotoVariable w)))
      else if op = GetIndirectBranchVariable then Some IndirectBranchVariable
      else if op = GetZFlag then Some ZeroFlagTag
      else if op = GetSFlag then Some SignFlagTag
      else if op = GetCFlag then Some CarryFlagTag
      else if op = GetOFlag then Some OverflowFlagTag
      else None)"

definition read_variable_of :: "IR \<Rightarrow> nat \<Rightarrow> Variant option" where
  "read_variable_of p i = variable_read (opcode (inst_of p i)) (args (inst_of p i))"

text \<open>The instructions in the order in which the pass visits them, and the variable
  reads among them.\<close>

definition visit_order :: "Program \<Rightarrow> nat list" where
  "visit_order program =
     concat (map (\<lambda>b. instructions (block_of (code program) b)) (rev (post_order_blocks program)))"

definition variable_reads :: "Program \<Rightarrow> nat set" where
  "variable_reads program =
     {g \<in> set (visit_order program). read_variable_of (code program) g \<noteq> None}"

text \<open>A value that is none of the instructions \<open>G\<close>.\<close>

definition avoids :: "nat set \<Rightarrow> Value \<Rightarrow> bool" where
  "avoids G v = (\<forall>g\<in>G. v \<noteq> InstRef g)"

text \<open>The invariant of the pass for the reads \<open>G\<close>, all below the handle \<open>n0\<close>, of the
  program \<open>p0\<close> it started from, with \<open>D\<close> the reads already visited: an operand that refers
  to a read of \<open>G\<close> belongs to an instruction of \<open>p0\<close> that held it from the start, and the
  read is not in \<open>D\<close>; a read of \<open>p0\<close> still reads the same variable; the instructions of
  \<open>p0\<close> stand in their blocks in the same order.\<close>

definition ir_inv :: "nat set \<Rightarrow> nat \<Rightarrow> IR \<Rightarrow> nat set \<Rightarrow> IR \<Rightarrow> bool" where
  "ir_inv G n0 p0 D p =
     (n0 \<le> num_insts p \<and>
      (\<forall>j. \<forall>g\<in>G. InstRef g \<in> set (operands (inst_of p j)) \<longrightarrow>
          j < n0 \<and> InstRef g \<in> set (operands (inst_of p0 j)) \<and> g \<notin> D) \<and>
      (\<forall>j x. j < n0 \<longrightarrow> read_variable_of p0 j = Some x \<longrightarrow> read_variable_of p j = Some x) \<and>
      (\<forall>b. filter (\<lambda>i. i < n0) (instructions (block_of p b)) =
           filter (\<lambda>i. i < n0) (instructions (block_of p0 b))))"

text \<open>The same for the state of the pass: the program satisfies the invariant, no
  recorded definition is a read of \<open>G\<close>, and the incomplete phis were created by the pass.\<close>

definition pass_inv :: "nat set \<Rightarrow> nat \<Rightarrow> IR \<Rightarrow> nat set \<Rightarrow> Pass \<Rightarrow> bool" where
  "pass_inv G n0 p0 D st =
     (ir_inv G n0 p0 D (prog st) \<and>
      (\<forall>x b v. current_def st x b = Some v \<longrightarrow> avoids G v) \<and>
      (\<forall>b x ph. (x, ph) \<in> set (incomplete_phis st b) \<longrightarrow> n0 \<le> ph))"

text \<open>The invariant of a frame of the work stack and of an action: the result is no read
  of \<open>G\<close> and the phi, if any, was created by the pass.\<close>

definition frame_inv :: "nat set \<Rightarrow> nat \<Rightarrow> ReadState \<Rightarrow> bool" where
  "frame_inv G n0 fr = (avoids G (result fr) \<and> (\<forall>ph. phi fr = Some ph \<longrightarrow> n0 \<le> ph))"

fun action_inv :: "nat set \<Rightarrow> nat \<Rightarrow> Action \<Rightarrow> bool" where
  "action_inv G n0 (Pop v) = avoids G v"
| "action_inv G n0 (Push g f) = (frame_inv G n0 g \<and> frame_inv G n0 f)"

text \<open>The reads \<open>G\<close> are instructions of the program the pass started from.\<close>

definition low :: "nat set \<Rightarrow> nat \<Rightarrow> bool" where
  "low G n0 = (\<forall>g\<in>G. g < n0)"

text \<open>The program of one block \<^verbatim>\<open>%0 = GetRegister RZ; SetRegister R1, %0\<close>.\<close>

definition sink_program :: Program where
  "sink_program = \<lparr>post_order_blocks = [0], code = sink_ir\<rparr>"

subsection \<open>States and programs for reads without a definition\<close>

text \<open>Block 0 is sealed and is its own only immediate predecessor; nothing defines a
  variable.\<close>

definition self_loop_pass :: Pass where
  "self_loop_pass =
     \<lparr>sealed_blocks = {0},
      incomplete_phis = (\<lambda>_. []),
      current_def = (\<lambda>_. Map.empty),
      prog = mk_ir [] [([], [0])]\<rparr>"

text \<open>One block without predecessors: \<^verbatim>\<open>%0 = GetRegister R3; SetRegister R2, %0; Return\<close>,
  the return being instruction 1. Nothing writes R3.\<close>

definition entry_read_program :: Program where
  "entry_read_program =
     \<lparr>post_order_blocks = [0],
      code = mk_ir [mk_inst GetRegister [ImmReg (R 3)],
                    mk_inst Opcode.Return [],
                    mk_inst SetRegister [ImmReg (R 2), InstRef 0]]
                   [([0, 2, 1], [])]\<rparr>"

section \<open>The primitives: what each leaves alone\<close>

lemma PrependNewInst_fst [simp]: "fst (PrependNewInst b pos op fl as p) = num_insts p"
  by (simp add: PrependNewInst_def Let_def)

lemma PrependNewInst_preds [simp]:
  "ImmediatePredecessors (snd (PrependNewInst b pos op fl as p)) = ImmediatePredecessors p"
  by (auto simp: PrependNewInst_def Let_def ImmediatePredecessors_def fun_eq_iff)

lemma PrependNewInst_succs [simp]:
  "successors (snd (PrependNewInst b pos op fl as p)) = successors p"
  by (auto simp: PrependNewInst_def Let_def successors_def fun_eq_iff split: option.splits)

lemma PrependNewInst_num [simp]:
  "num_insts (snd (PrependNewInst b pos op fl as p)) = Suc (num_insts p)"
  by (simp add: PrependNewInst_def Let_def)

lemma PrependNewInst_inst_of [simp]:
  "inst_of (snd (PrependNewInst b pos op fl as p)) =
     (inst_of p)(num_insts p := \<lparr>opcode = op, flags = fl, args = as, phi_args = []\<rparr>)"
  by (simp add: PrependNewInst_def Let_def)

lemma PrependNewInst_instructions [simp]:
  "instructions (block_of (snd (PrependNewInst b pos op fl as p)) b') =
     (if b' = b then take pos (instructions (block_of p b)) @ [num_insts p] @ drop pos (instructions (block_of p b))
      else instructions (block_of p b'))"
  by (simp add: PrependNewInst_def Let_def)

lemma Type_of_inst_of: "inst_of p' = inst_of p \<Longrightarrow> Type_of p' v = Type_of p v"
  by (cases v) simp_all

lemma cfg_edits_keep_inst_of [simp]:
  "inst_of (AddImmediatePredecessor b c p) = inst_of p"
  "inst_of (SetBranch b l p) = inst_of p"
  "inst_of (SetBranches b t f p) = inst_of p"
  by (simp_all add: AddImmediatePredecessor_def SetBranch_def SetBranches_def Let_def)

lemma Inst_eq:
  "Inst op fl as em =
     (if ValidArgs (ir em) op as
      then Inr (InstRef (num_insts (ir em)),
             em\<lparr>ir := snd (PrependNewInst (IREmitter.block em)
                      (length (instructions (block_of (ir em) (IREmitter.block em)))) op fl as (ir em))\<rparr>)
      else Inl InvalidArgument)"
  by (simp add: Inst_def split_beta Let_def)

lemma Inst_emitted:
  "ValidArgs (ir em) op as \<Longrightarrow>
   \<exists>em'. Inst op fl as em = Inr (InstRef (num_insts (ir em)), em') \<and> emitted op as em em'
      \<and> successors (ir em') = successors (ir em)
      \<and> ImmediatePredecessors (ir em') = ImmediatePredecessors (ir em)"
  by (simp add: Inst_eq emitted_def)

lemma preds_AddImmediatePredecessor:
  "ImmediatePredecessors (AddImmediatePredecessor b c p) =
     (ImmediatePredecessors p)(b := (if c \<in> set (ImmediatePredecessors p b) then ImmediatePredecessors p b
                                     else ImmediatePredecessors p b @ [c]))"
  by (auto simp: AddImmediatePredecessor_def Let_def ImmediatePredecessors_def fun_eq_iff)

lemma succs_AddImmediatePredecessor:
  "successors (AddImmediatePredecessor b c p) = successors p"
  by (auto simp: AddImmediatePredecessor_def Let_def successors_def fun_eq_iff split: option.splits)

lemma preds_SetBranch:
  "ImmediatePredecessors (SetBranch b l p) = ImmediatePredecessors p"
  "ImmediatePredecessors (SetBranches b t f p) = ImmediatePredecessors p"
  by (auto simp: SetBranch_def SetBranches_def ImmediatePredecessors_def fun_eq_iff)

lemma succs_SetBranch:
  "successors (SetBranch b l p) = (successors p)(b := [l])"
  "successors (SetBranches b t f p) = (successors p)(b := [t, f])"
  by (auto simp: SetBranch_def SetBranches_def successors_def fun_eq_iff split: option.splits)

lemma cfg_edits_keep_instructions [simp]:
  "num_insts (AddImmediatePredecessor b c p) = num_insts p"
  "num_insts (SetBranch b l p) = num_insts p"
  "num_insts (SetBranches b t f p) = num_insts p"
  "instructions (block_of (AddImmediatePredecessor b c p) b') = instructions (block_of p b')"
  "instructions (block_of (SetBranch b l p) b') = instructions (block_of p b')"
  "instructions (block_of (SetBranches b t f p) b') = instructions (block_of p b')"
  by (auto simp: AddImmediatePredecessor_def SetBranch_def SetBranches_def Let_def)

section \<open>The emitter\<close>

text \<open>The guard of \<^verbatim>\<open>FPAdd\<close> compares the type of \<open>a\<close> with itself and never fires.\<close>

lemma FPAdd_dispatch:
  "FPAdd a b control em =
     (case Type_of (ir em) a of
        F16 \<Rightarrow> Inst FPAdd16 (Some control) [a, b] em
      | F32 \<Rightarrow> Inst FPAdd32 (Some control) [a, b] em
      | F64 \<Rightarrow> Inst FPAdd64 (Some control) [a, b] em
      | _ \<Rightarrow> Inl InvalidArgument)"
  by (cases "Type_of (ir em) a") (simp_all add: FPAdd_def ThrowInvalidType_def)

text \<open>C1. \<^verbatim>\<open>FPAdd\<close> on a first operand of a floating-point type: when the second operand
  has another type the call raises InvalidArgument (the insertion rejects the operand),
  and when it has the same type the call emits the addition opcode of that type over the
  two operands, with the control word as flags. A first operand of any other type raises
  InvalidArgument.\<close>

theorem FPAdd_cases:
  "(case FPAdd_opcode (Type_of (ir em) a) of
      None \<Rightarrow> FPAdd a b control em = Inl InvalidArgument
    | Some op \<Rightarrow>
        if Type_of (ir em) b \<noteq> Type_of (ir em) a then FPAdd a b control em = Inl InvalidArgument
        else (\<exists>em'. FPAdd a b control em = Inr (InstRef (num_insts (ir em)), em') \<and>
                    emitted op [a, b] em em' \<and>
                    flags (inst_of (ir em') (num_insts (ir em))) = Some control))"
  by (cases "Type_of (ir em) a")
     (auto simp: FPAdd_dispatch Inst_eq ValidArgs_def emitted_def)

text \<open>On the empty program: an F32 and an F64 immediate are rejected, two F32 immediates
  give an \<^verbatim>\<open>FPAdd32\<close> instruction.\<close>

theorem FPAdd_cases_witness:
  "FPAdd (ImmF32 5) (ImmF64 6) fp0 em0 = Inl InvalidArgument \<and>
   (\<exists>em'. FPAdd (ImmF32 5) (ImmF32 6) fp0 em0 = Inr (InstRef (num_insts (ir em0)), em') \<and>
          emitted FPAdd32 [ImmF32 5, ImmF32 6] em0 em' \<and>
          flags (inst_of (ir em') (num_insts (ir em0))) = Some fp0)"
  using FPAdd_cases [where em = em0 and a = "ImmF32 5" and b = "ImmF64 6" and control = fp0]
    FPAdd_cases [where em = em0 and a = "ImmF32 5" and b = "ImmF32 6" and control = fp0]
  by simp

lemma CompositeConstruct2_U32:
  "Type_of (ir em) e1 = U32 \<Longrightarrow> Type_of (ir em) e2 = U32 \<Longrightarrow>
   CompositeConstruct2 e1 e2 em =
     Inr (InstRef (num_insts (ir em)),
          em\<lparr>ir := snd (PrependNewInst (IREmitter.block em)
                   (length (instructions (block_of (ir em) (IREmitter.block em))))
                   CompositeConstructU32x2 None [e1, e2] (ir em))\<rparr>)"
  by (simp add: CompositeConstruct2_def Inst_eq ValidArgs_def)

text \<open>C7. \<^verbatim>\<open>CompositeExtract\<close>: on a vector of a composite type with N elements, an
  index of N or more raises InvalidArgument, and a smaller index emits the extraction
  opcode of that type over the vector and the index; on a vector of any other type it
  raises InvalidArgument.\<close>

theorem CompositeExtract_bounds:
  "(case composite_info (Type_of (ir em) vector) of
      None \<Rightarrow> CompositeExtract vector element em = Inl InvalidArgument
    | Some (n, op) \<Rightarrow>
        if n \<le> element then CompositeExtract vector element em = Inl InvalidArgument
        else (\<exists>em'. CompositeExtract vector element em = Inr (InstRef (num_insts (ir em)), em') \<and>
                    emitted op [vector, ImmU32 (word_of_nat element)] em em'))"
  by (cases "Type_of (ir em) vector")
     (simp_all add: CompositeExtract_def read_def ThrowInvalidType_def Inst_eq ValidArgs_def
        emitted_def)

text \<open>On the vector that \<^verbatim>\<open>CompositeConstruct\<close> builds from two U32 immediates: the index 2
  is rejected, the index 0 emits \<^verbatim>\<open>CompositeExtractU32x2\<close>; a U32 immediate in the place
  of the vector is rejected.\<close>

theorem CompositeExtract_bounds_witness:
  "\<exists>v em1. CompositeConstruct2 (ImmU32 7) (ImmU32 9) em0 = Inr (v, em1) \<and>
     Type_of (ir em1) v = U32x2 \<and>
     CompositeExtract v 2 em1 = Inl InvalidArgument \<and>
     (\<exists>em'. CompositeExtract v 0 em1 = Inr (InstRef (num_insts (ir em1)), em') \<and>
            emitted CompositeExtractU32x2 [v, ImmU32 0] em1 em') \<and>
     CompositeExtract (ImmU32 7) 0 em1 = Inl InvalidArgument"
proof -
  define em1 where
    "em1 = em0\<lparr>ir := snd (PrependNewInst (IREmitter.block em0)
                (length (instructions (block_of (ir em0) (IREmitter.block em0))))
                CompositeConstructU32x2 None [ImmU32 7, ImmU32 9] (ir em0))\<rparr>"
  have c: "CompositeConstruct2 (ImmU32 7) (ImmU32 9) em0 = Inr (InstRef 0, em1)"
    unfolding em1_def by (simp add: CompositeConstruct2_U32) (simp add: em0_def mk_ir_def)
  have t: "Type_of (ir em1) (InstRef 0) = U32x2"
    by (simp add: em1_def em0_def mk_ir_def)
  from t CompositeExtract_bounds [where em = em1 and vector = "InstRef 0" and element = 2]
    CompositeExtract_bounds [where em = em1 and vector = "InstRef 0" and element = 0]
    CompositeExtract_bounds [where em = em1 and vector = "ImmU32 7" and element = 0]
  have "CompositeExtract (InstRef 0) 2 em1 = Inl InvalidArgument \<and>
     (\<exists>em'. CompositeExtract (InstRef 0) 0 em1 = Inr (InstRef (num_insts (ir em1)), em') \<and>
            emitted CompositeExtractU32x2 [InstRef 0, ImmU32 0] em1 em') \<and>
     CompositeExtract (ImmU32 7) 0 em1 = Inl InvalidArgument"
    by simp
  with c t show ?thesis by blast
qed

text \<open>C10. \<^verbatim>\<open>ConvertU\<close>: when the result bitsize is the width of the value (32 for U32,
  64 for U64) it returns the value itself and leaves the emitter as it is; from U64 to 32
  bits it emits \<^verbatim>\<open>ConvertU32U64\<close>, from U32 to 64 bits \<^verbatim>\<open>ConvertU64U32\<close>; every other
  combination raises NotImplemented.\<close>

theorem ConvertU_cases:
  "(if (result_bitsize = 32 \<and> Type_of (ir em) v = U32) \<or> (result_bitsize = 64 \<and> Type_of (ir em) v = U64)
    then ConvertU result_bitsize v em = Inr (v, em)
    else if result_bitsize = 32 \<and> Type_of (ir em) v = U64
    then (\<exists>em'. ConvertU result_bitsize v em = Inr (InstRef (num_insts (ir em)), em') \<and>
                emitted ConvertU32U64 [v] em em')
    else if result_bitsize = 64 \<and> Type_of (ir em) v = U32
    then (\<exists>em'. ConvertU result_bitsize v em = Inr (InstRef (num_insts (ir em)), em') \<and>
                emitted ConvertU64U32 [v] em em')
    else ConvertU result_bitsize v em = Inl NotImplemented)"
  by (cases "Type_of (ir em) v") (simp_all add: ConvertU_def Inst_eq ValidArgs_def emitted_def)

text \<open>C8, as the code has it. \<^verbatim>\<open>Branch\<close> and \<^verbatim>\<open>BranchConditional\<close> emit their
  instruction, make the labels the successors of the current block, and add the current
  block to the predecessors of each label (once, at the end); the condition of
  \<^verbatim>\<open>BranchConditional\<close> is a \<^verbatim>\<open>U1\<close> in the source, and the insertion rejects a value of
  another type. \<^verbatim>\<open>LoopMerge\<close>, \<^verbatim>\<open>SelectionMerge\<close> and \<^verbatim>\<open>Return\<close> emit their instruction
  and leave every successor list and every predecessor list as it is.\<close>

theorem control_flow_emitters:
  "(\<exists>em'. Branch label em = Inr (InstRef (num_insts (ir em)), em') \<and>
      emitted Opcode.Branch [ImmLabel label] em em' \<and>
      successors (ir em') = (successors (ir em))(IREmitter.block em := [label]) \<and>
      ImmediatePredecessors (ir em') = (ImmediatePredecessors (ir em))
        (label := (if IREmitter.block em \<in> set (ImmediatePredecessors (ir em) label)
                   then ImmediatePredecessors (ir em) label
                   else ImmediatePredecessors (ir em) label @ [IREmitter.block em]))) \<and>
   (if Type_of (ir em) c = U1
    then (\<exists>em'. BranchConditional c t f em = Inr (InstRef (num_insts (ir em)), em') \<and>
      emitted Opcode.BranchConditional [c, ImmLabel t, ImmLabel f] em em' \<and>
      successors (ir em') = (successors (ir em))(IREmitter.block em := [t, f]) \<and>
      ImmediatePredecessors (ir em') =
        (let cur = IREmitter.block em;
             P1 = (ImmediatePredecessors (ir em))
                    (t := (if cur \<in> set (ImmediatePredecessors (ir em) t)
                           then ImmediatePredecessors (ir em) t
                           else ImmediatePredecessors (ir em) t @ [cur]))
         in P1(f := (if cur \<in> set (P1 f) then P1 f else P1 f @ [cur]))))
    else BranchConditional c t f em = Inl InvalidArgument) \<and>
   (\<exists>em'. LoopMerge m ct em = Inr (InstRef (num_insts (ir em)), em') \<and>
      emitted Opcode.LoopMerge [ImmLabel m, ImmLabel ct] em em' \<and>
      successors (ir em') = successors (ir em) \<and>
      ImmediatePredecessors (ir em') = ImmediatePredecessors (ir em)) \<and>
   (\<exists>em'. SelectionMerge m em = Inr (InstRef (num_insts (ir em)), em') \<and>
      emitted Opcode.SelectionMerge [ImmLabel m] em em' \<and>
      successors (ir em') = successors (ir em) \<and>
      ImmediatePredecessors (ir em') = ImmediatePredecessors (ir em)) \<and>
   (\<exists>em'. Return em = Inr (InstRef (num_insts (ir em)), em') \<and>
      emitted Opcode.Return [] em em' \<and>
      successors (ir em') = successors (ir em) \<and>
      ImmediatePredecessors (ir em') = ImmediatePredecessors (ir em))"
proof (intro conjI)
  show "\<exists>em'. Branch label em = Inr (InstRef (num_insts (ir em)), em') \<and>
      emitted Opcode.Branch [ImmLabel label] em em' \<and>
      successors (ir em') = (successors (ir em))(IREmitter.block em := [label]) \<and>
      ImmediatePredecessors (ir em') = (ImmediatePredecessors (ir em))
        (label := (if IREmitter.block em \<in> set (ImmediatePredecessors (ir em) label)
                   then ImmediatePredecessors (ir em) label
                   else ImmediatePredecessors (ir em) label @ [IREmitter.block em]))"
    by (simp add: Branch_def Let_def Inst_eq ValidArgs_def emitted_def preds_AddImmediatePredecessor
          succs_AddImmediatePredecessor preds_SetBranch succs_SetBranch)
  have v: "ValidArgs p Opcode.BranchConditional [c, ImmLabel t, ImmLabel f] \<longleftrightarrow> Type_of p c = U1"
    for p
    by (simp add: ValidArgs_def)
  have ty: "Type_of (AddImmediatePredecessor f (IREmitter.block em)
              (AddImmediatePredecessor t (IREmitter.block em)
                (SetBranches (IREmitter.block em) t f (ir em)))) c = Type_of (ir em) c"
    by (rule Type_of_inst_of) simp
  show "if Type_of (ir em) c = U1
    then (\<exists>em'. BranchConditional c t f em = Inr (InstRef (num_insts (ir em)), em') \<and>
      emitted Opcode.BranchConditional [c, ImmLabel t, ImmLabel f] em em' \<and>
      successors (ir em') = (successors (ir em))(IREmitter.block em := [t, f]) \<and>
      ImmediatePredecessors (ir em') =
        (let cur = IREmitter.block em;
             P1 = (ImmediatePredecessors (ir em))
                    (t := (if cur \<in> set (ImmediatePredecessors (ir em) t)
                           then ImmediatePredecessors (ir em) t
                           else ImmediatePredecessors (ir em) t @ [cur]))
         in P1(f := (if cur \<in> set (P1 f) then P1 f else P1 f @ [cur]))))
    else BranchConditional c t f em = Inl InvalidArgument"
    by (simp add: BranchConditional_def Let_def Inst_eq v ty emitted_def preds_AddImmediatePredecessor
          succs_AddImmediatePredecessor preds_SetBranch succs_SetBranch)
qed (simp_all add: LoopMerge_def SelectionMerge_def Return_def Inst_emitted ValidArgs_def)

text \<open>On the empty program, with the emitter at block 0: a conditional branch on a U1
  immediate to the blocks 0 and 2 makes them the successors of block 0 and block 0 a
  predecessor of block 2; a condition of type U32 is rejected.\<close>

theorem control_flow_emitters_witness:
  "(\<exists>em'. BranchConditional (ImmU1 True) 0 2 em0 = Inr (InstRef (num_insts (ir em0)), em') \<and>
      emitted Opcode.BranchConditional [ImmU1 True, ImmLabel 0, ImmLabel 2] em0 em' \<and>
      successors (ir em') 0 = [0, 2] \<and>
      ImmediatePredecessors (ir em') 2 = [0]) \<and>
   BranchConditional (ImmU32 0) 0 2 em0 = Inl InvalidArgument"
proof -
  have b: "IREmitter.block em0 = 0" "ImmediatePredecessors (ir em0) 0 = []"
    "ImmediatePredecessors (ir em0) 2 = []"
    by (simp_all add: em0_def ImmediatePredecessors_def mk_ir_def mk_block_def)
  from control_flow_emitters [where em = em0 and c = "ImmU1 True" and t = 0 and f = 2,
      THEN conjunct2, THEN conjunct1]
  have 1: "\<exists>em'. BranchConditional (ImmU1 True) 0 2 em0 = Inr (InstRef (num_insts (ir em0)), em') \<and>
      emitted Opcode.BranchConditional [ImmU1 True, ImmLabel 0, ImmLabel 2] em0 em' \<and>
      successors (ir em') 0 = [0, 2] \<and>
      ImmediatePredecessors (ir em') 2 = [0]"
    by (auto simp: b Let_def)
  from control_flow_emitters [where em = em0 and c = "ImmU32 0" and t = 0 and f = 2,
      THEN conjunct2, THEN conjunct1]
  have 2: "BranchConditional (ImmU32 0) 0 2 em0 = Inl InvalidArgument"
    by simp
  from 1 2 show ?thesis by blast
qed

text \<open>C8 as stated fails: after \<^verbatim>\<open>LoopMerge\<close> on the empty program, with the emitter at
  block 0 and the labels 1 and 2, block 0 has no successor and neither label has a
  predecessor.\<close>

theorem LoopMerge_patches_nothing:
  "(case LoopMerge 1 2 em0 of
      Inl e \<Rightarrow> False
    | Inr (v, em') \<Rightarrow>
        successors (ir em') 0 = [] \<and> ImmediatePredecessors (ir em') 1 = [] \<and>
        ImmediatePredecessors (ir em') 2 = [])"
  by (simp add: LoopMerge_def Inst_eq ValidArgs_def em0_def mk_ir_def mk_block_def successors_def
        ImmediatePredecessors_def PrependNewInst_def Let_def)

section \<open>The SSA pass: variables and sinks\<close>

text \<open>C2, as the code has it. The undef opcode is \<^verbatim>\<open>UndefU32\<close> for a register and for
  the indirect-branch variable, and \<^verbatim>\<open>UndefU1\<close> for a predicate, for each of the four
  flags and for a goto variable.\<close>

theorem UndefOpcode_by_kind:
  "UndefOpcode v =
     (case v of VReg _ \<Rightarrow> UndefU32 | IndirectBranchVariable \<Rightarrow> UndefU32 | _ \<Rightarrow> UndefU1)"
  by (cases v) simp_all

text \<open>C2 as stated fails for goto variables: the undef opcode of goto variable 0 is
  \<^verbatim>\<open>UndefU1\<close>, not \<^verbatim>\<open>UndefU32\<close>.\<close>

theorem UndefOpcode_goto_is_U1:
  "UndefOpcode (GotoVariable 0) = UndefU1 \<and> UndefOpcode (GotoVariable 0) \<noteq> UndefU32"
  by simp

text \<open>C6. Visiting a \<^verbatim>\<open>SetRegister\<close> or \<^verbatim>\<open>GetRegister\<close> of RZ, or a \<^verbatim>\<open>SetPred\<close> or
  \<^verbatim>\<open>GetPred\<close> of PT, returns the state of the pass as it was: the definitions, the
  program and so the operands of every instruction are unchanged.\<close>

theorem VisitInst_sinks:
  assumes "(opcode (inst_of (prog st) inst) \<in> {SetRegister, GetRegister} \<and>
              Arg (prog st) inst 0 = Inr (ImmReg Reg.RZ))
         \<or> (opcode (inst_of (prog st) inst) \<in> {SetPred, GetPred} \<and>
              Arg (prog st) inst 0 = Inr (ImmPred PT))"
  shows "VisitInst b inst st = Some (Inr st)"
  using assms by (auto simp: VisitInst_def arg0_def)

theorem VisitInst_sinks_witness:
  "VisitInst 0 0 (new_Pass sink_ir) = Some (Inr (new_Pass sink_ir))"
  by (rule VisitInst_sinks)
     (simp add: new_Pass_def sink_ir_def mk_ir_def mk_inst_def Arg_def Args_def)

section \<open>Trivial phis\<close>

lemma same_nonempty:
  "same \<noteq> Empty \<Longrightarrow>
   TryRemoveTrivialPhi_same ph same ops =
     (if \<forall>v \<in> set ops. v = same \<or> v = InstRef ph then Some same else None)"
  by (induction ops) (auto simp: Resolve_def IsEmpty_def)

lemma same_empty:
  "Empty \<notin> set ops \<Longrightarrow>
   TryRemoveTrivialPhi_same ph Empty ops =
     (case filter (\<lambda>v. v \<noteq> InstRef ph) ops of
        [] \<Rightarrow> Some Empty
      | v # vs \<Rightarrow> if \<forall>w \<in> set vs. w = v then Some v else None)"
proof (induction ops)
  case Nil
  then show ?case by simp
next
  case (Cons a ops)
  show ?case
  proof (cases "a = InstRef ph")
    case True
    with Cons show ?thesis by (simp add: Resolve_def IsEmpty_def)
  next
    case False
    with Cons.prems have "a \<noteq> Empty" by auto
    with False show ?thesis
      by (auto simp: Resolve_def IsEmpty_def same_nonempty)
  qed
qed

lemma same_two_distinct:
  assumes "Empty \<notin> set ops" "v \<in> set ops" "w \<in> set ops" "v \<noteq> InstRef ph" "w \<noteq> InstRef ph" "v \<noteq> w"
  shows "TryRemoveTrivialPhi_same ph Empty ops = None"
proof -
  let ?f = "filter (\<lambda>v. v \<noteq> InstRef ph) ops"
  from assms have vw: "v \<in> set ?f" "w \<in> set ?f" by auto
  then obtain x xs where f: "?f = x # xs" by (cases ?f) auto
  have "\<not> (\<forall>y \<in> set xs. y = x)"
  proof
    assume "\<forall>y \<in> set xs. y = x"
    with vw f have "v = x" "w = x" by auto
    with \<open>v \<noteq> w\<close> show False by simp
  qed
  with f assms(1) show ?thesis by (simp add: same_empty)
qed

lemma same_unique:
  assumes "Empty \<notin> set ops" "set ops - {InstRef ph} = {v}"
  shows "TryRemoveTrivialPhi_same ph Empty ops = Some v"
proof -
  let ?f = "filter (\<lambda>v. v \<noteq> InstRef ph) ops"
  have s: "set ?f = {v}" using assms(2) by auto
  then obtain x xs where f: "?f = x # xs" by (cases ?f) auto
  with s have "x = v" "\<forall>y \<in> set xs. y = v" by auto
  with f assms(1) show ?thesis by (simp add: same_empty)
qed

lemma same_none:
  assumes "Empty \<notin> set ops" "set ops - {InstRef ph} = {}"
  shows "TryRemoveTrivialPhi_same ph Empty ops = Some Empty"
proof -
  have "filter (\<lambda>v. v \<noteq> InstRef ph) ops = []" using assms(2) by (auto simp: filter_empty_conv)
  with assms(1) show ?thesis by (simp add: same_empty)
qed

lemma IsPhi_block_of [simp]: "IsPhi (p\<lparr>block_of := f\<rparr>) = IsPhi p"
  by (simp add: IsPhi_def fun_eq_iff)

lemma InsertUndef_fst [simp]: "fst (InsertUndef ph b opc p) = num_insts p"
  by (simp add: InsertUndef_def Let_def split_beta)

lemma insert_behind:
  "take (Suc (length xs)) (xs @ [n] @ ys) @ [x] @ drop (Suc (length xs)) (xs @ [n] @ ys) = xs @ [n, x] @ ys"
  by simp

lemma InsertUndef_instructions:
  "instructions (block_of (snd (InsertUndef ph b opc p)) b') =
     (if b' = b then
        takeWhile (IsPhi p) (remove1 ph (instructions (block_of p b))) @ [num_insts p, ph] @
        dropWhile (IsPhi p) (remove1 ph (instructions (block_of p b)))
      else instructions (block_of p b'))"
  unfolding InsertUndef_def Let_def split_beta
  by (simp add: takeWhile_eq_take [symmetric] dropWhile_eq_drop [symmetric])

lemma InsertUndef_inst_of [simp]:
  "inst_of (snd (InsertUndef ph b opc p)) =
     (inst_of p)(num_insts p := \<lparr>opcode = opc, flags = None, args = [], phi_args = []\<rparr>)"
  by (simp add: InsertUndef_def Let_def split_beta)

lemma InsertUndef_num [simp]: "num_insts (snd (InsertUndef ph b opc p)) = Suc (num_insts p)"
  by (simp add: InsertUndef_def Let_def split_beta)

lemma ReplaceUsesWith_block_of [simp]: "block_of (ReplaceUsesWith t r p) = block_of p"
  by (simp add: ReplaceUsesWith_def)

lemma ReplaceUsesWith_num [simp]: "num_insts (ReplaceUsesWith t r p) = num_insts p"
  by (simp add: ReplaceUsesWith_def)

lemma ReplaceUsesWith_opcode [simp]: "opcode (inst_of (ReplaceUsesWith t r p) j) = opcode (inst_of p j)"
  by (simp add: ReplaceUsesWith_def)

lemma dropWhile_remove1_subset:
  "set (dropWhile Q (remove1 x l)) \<subseteq> set (dropWhile Q l)"
proof (induction l)
  case Nil
  then show ?case by simp
next
  case (Cons a l)
  show ?case
  proof (cases "x = a")
    case True
    have "set (dropWhile Q l) \<subseteq> set (dropWhile Q (a # l))"
      by (auto dest: set_dropWhileD)
    with True show ?thesis by simp
  next
    case False
    have "set (dropWhile Q (remove1 x l)) \<subseteq> set l"
      using set_remove1_subset[of x l] by (auto dest!: set_dropWhileD)
    with False Cons show ?thesis by auto
  qed
qed


text \<open>C4. For a phi whose operands are values (none is the empty value), with N the set
  of its operands other than the phi itself: when N holds two different values,
  \<^verbatim>\<open>TryRemoveTrivialPhi\<close> returns the phi and changes nothing; when N is a single value
  \<open>v\<close>, it replaces the uses of the phi with \<open>v\<close> and returns \<open>v\<close>; when N is empty, it
  returns a new undef instruction, which stands in the block right behind the leading
  phis (all of the phis, when the block keeps its phis in front) with the phi right
  behind it, and the uses of the phi are replaced with the undef.\<close>

theorem TryRemoveTrivialPhi_cases:
  assumes "Empty \<notin> set (Args p ph)"
  shows "((\<exists>v \<in> set (Args p ph) - {InstRef ph}. \<exists>w \<in> set (Args p ph) - {InstRef ph}. v \<noteq> w) \<longrightarrow>
            TryRemoveTrivialPhi ph b opc p = (InstRef ph, p)) \<and>
         (\<forall>v. set (Args p ph) - {InstRef ph} = {v} \<longrightarrow>
            TryRemoveTrivialPhi ph b opc p = (v, ReplaceUsesWith ph v p)) \<and>
         (set (Args p ph) - {InstRef ph} = {} \<longrightarrow>
            (let l = remove1 ph (instructions (block_of p b)); undef = num_insts p
             in \<exists>p'. TryRemoveTrivialPhi ph b opc p = (InstRef undef, ReplaceUsesWith ph (InstRef undef) p') \<and>
                   inst_of p' = (inst_of p)(undef := \<lparr>opcode = opc, flags = None, args = [], phi_args = []\<rparr>) \<and>
                   num_insts p' = Suc undef \<and>
                   instructions (block_of p' b) = takeWhile (IsPhi p) l @ [undef, ph] @ dropWhile (IsPhi p) l \<and>
                   (\<forall>b'. b' \<noteq> b \<longrightarrow> instructions (block_of p' b') = instructions (block_of p b')) \<and>
                   (\<forall>i \<in> set (takeWhile (IsPhi p) l). IsPhi p i) \<and>
                   ((\<forall>i \<in> set (dropWhile (IsPhi p) (instructions (block_of p b))). \<not> IsPhi p i) \<longrightarrow>
                    (\<forall>i \<in> set (dropWhile (IsPhi p) l). \<not> IsPhi p i))))"
proof (intro conjI impI allI)
  assume "\<exists>v \<in> set (Args p ph) - {InstRef ph}. \<exists>w \<in> set (Args p ph) - {InstRef ph}. v \<noteq> w"
  then obtain v w where "v \<in> set (Args p ph)" "w \<in> set (Args p ph)" "v \<noteq> InstRef ph" "w \<noteq> InstRef ph" "v \<noteq> w"
    by auto
  with assms have "TryRemoveTrivialPhi_same ph Empty (Args p ph) = None"
    by (rule same_two_distinct)
  then show "TryRemoveTrivialPhi ph b opc p = (InstRef ph, p)"
    by (simp add: TryRemoveTrivialPhi_def)
next
  fix v
  assume v: "set (Args p ph) - {InstRef ph} = {v}"
  with assms have "TryRemoveTrivialPhi_same ph Empty (Args p ph) = Some v"
    by (rule same_unique)
  moreover from v assms have "v \<noteq> Empty" by auto
  ultimately show "TryRemoveTrivialPhi ph b opc p = (v, ReplaceUsesWith ph v p)"
    by (simp add: TryRemoveTrivialPhi_def IsEmpty_def)
next
  assume "set (Args p ph) - {InstRef ph} = {}"
  with assms have s: "TryRemoveTrivialPhi_same ph Empty (Args p ph) = Some Empty"
    by (rule same_none)
  let ?l = "remove1 ph (instructions (block_of p b))"
  let ?p' = "snd (InsertUndef ph b opc p)"
  have 1: "TryRemoveTrivialPhi ph b opc p = (InstRef (num_insts p), ReplaceUsesWith ph (InstRef (num_insts p)) ?p')"
    using s by (simp add: TryRemoveTrivialPhi_def IsEmpty_def split_beta)
  have 2: "\<forall>i \<in> set (takeWhile (IsPhi p) ?l). IsPhi p i"
    by (auto dest: set_takeWhileD)
  have 3: "(\<forall>i \<in> set (dropWhile (IsPhi p) (instructions (block_of p b))). \<not> IsPhi p i) \<longrightarrow>
           (\<forall>i \<in> set (dropWhile (IsPhi p) ?l). \<not> IsPhi p i)"
    using dropWhile_remove1_subset [of "IsPhi p" ph "instructions (block_of p b)"] by blast
  show "let l = remove1 ph (instructions (block_of p b)); undef = num_insts p
        in \<exists>p'. TryRemoveTrivialPhi ph b opc p = (InstRef undef, ReplaceUsesWith ph (InstRef undef) p') \<and>
                inst_of p' = (inst_of p)(undef := \<lparr>opcode = opc, flags = None, args = [], phi_args = []\<rparr>) \<and>
                num_insts p' = Suc undef \<and>
                instructions (block_of p' b) = takeWhile (IsPhi p) l @ [undef, ph] @ dropWhile (IsPhi p) l \<and>
                (\<forall>b'. b' \<noteq> b \<longrightarrow> instructions (block_of p' b') = instructions (block_of p b')) \<and>
                (\<forall>i \<in> set (takeWhile (IsPhi p) l). IsPhi p i) \<and>
                ((\<forall>i \<in> set (dropWhile (IsPhi p) (instructions (block_of p b))). \<not> IsPhi p i) \<longrightarrow>
                 (\<forall>i \<in> set (dropWhile (IsPhi p) l). \<not> IsPhi p i))"
    unfolding Let_def
  proof (rule exI [of _ ?p'], intro conjI allI impI)
    show "TryRemoveTrivialPhi ph b opc p =
            (InstRef (num_insts p), ReplaceUsesWith ph (InstRef (num_insts p)) ?p')"
      by (rule 1)
    show "inst_of ?p' = (inst_of p)(num_insts p := \<lparr>opcode = opc, flags = None, args = [], phi_args = []\<rparr>)"
      by simp
    show "num_insts ?p' = Suc (num_insts p)" by simp
    show "instructions (block_of ?p' b) = takeWhile (IsPhi p) ?l @ [num_insts p, ph] @ dropWhile (IsPhi p) ?l"
      by (simp add: InsertUndef_instructions)
    show "\<And>b'. b' \<noteq> b \<Longrightarrow> instructions (block_of ?p' b') = instructions (block_of p b')"
      by (simp add: InsertUndef_instructions)
    show "\<forall>i \<in> set (takeWhile (IsPhi p) ?l). IsPhi p i" by (rule 2)
    show "\<forall>i \<in> set (dropWhile (IsPhi p) ?l). \<not> IsPhi p i"
      if "\<forall>i \<in> set (dropWhile (IsPhi p) (instructions (block_of p b))). \<not> IsPhi p i"
      using 3 that by blast
  qed
qed

lemma phis_ir_Args:
  "Args phis_ir 0 = [ImmU32 7, InstRef 0]" "Args phis_ir 2 = [ImmU32 7, ImmU32 8]" "Args phis_ir 3 = []"
  by (simp_all add: phis_ir_def mk_ir_def mk_phi_def Args_def)

lemma phis_ir_facts:
  "instructions (block_of phis_ir 0) = [0, 2, 3, 4]" "num_insts phis_ir = 5"
  "IsPhi phis_ir 0" "IsPhi phis_ir 2" "\<not> IsPhi phis_ir 4"
  "args (inst_of phis_ir 4) = [InstRef 0, InstRef 3]"
  by (simp_all add: phis_ir_def mk_ir_def mk_block_def mk_phi_def mk_inst_def IsPhi_def)

theorem TryRemoveTrivialPhi_cases_witness:
  "Empty \<notin> set (Args phis_ir 0) \<and> set (Args phis_ir 0) - {InstRef 0} = {ImmU32 7} \<and>
   TryRemoveTrivialPhi 0 0 UndefU32 phis_ir = (ImmU32 7, ReplaceUsesWith 0 (ImmU32 7) phis_ir) \<and>
   Empty \<notin> set (Args phis_ir 2) \<and> ImmU32 7 \<in> set (Args phis_ir 2) - {InstRef 2} \<and>
   ImmU32 8 \<in> set (Args phis_ir 2) - {InstRef 2} \<and>
   TryRemoveTrivialPhi 2 0 UndefU32 phis_ir = (InstRef 2, phis_ir) \<and>
   Empty \<notin> set (Args phis_ir 3) \<and> set (Args phis_ir 3) - {InstRef 3} = {} \<and>
   fst (TryRemoveTrivialPhi 3 0 UndefU32 phis_ir) = InstRef 5 \<and>
   instructions (block_of (snd (TryRemoveTrivialPhi 3 0 UndefU32 phis_ir)) 0) = [0, 2, 5, 3, 4] \<and>
   opcode (inst_of (snd (TryRemoveTrivialPhi 3 0 UndefU32 phis_ir)) 5) = UndefU32 \<and>
   args (inst_of (snd (TryRemoveTrivialPhi 3 0 UndefU32 phis_ir)) 4) = [InstRef 0, InstRef 5]"
proof -
  have a: "Empty \<notin> set (Args phis_ir 0)" "set (Args phis_ir 0) - {InstRef 0} = {ImmU32 7}"
    by (auto simp: phis_ir_Args)
  have b: "Empty \<notin> set (Args phis_ir 2)" "ImmU32 7 \<in> set (Args phis_ir 2) - {InstRef 2}"
    "ImmU32 8 \<in> set (Args phis_ir 2) - {InstRef 2}"
    by (simp_all add: phis_ir_Args)
  have c: "Empty \<notin> set (Args phis_ir 3)" "set (Args phis_ir 3) - {InstRef 3} = {}"
    by (simp_all add: phis_ir_Args)
  from TryRemoveTrivialPhi_cases [OF a(1), of 0 UndefU32] a(2)
  have 1: "TryRemoveTrivialPhi 0 0 UndefU32 phis_ir = (ImmU32 7, ReplaceUsesWith 0 (ImmU32 7) phis_ir)"
    by blast
  have "\<exists>v \<in> set (Args phis_ir 2) - {InstRef 2}. \<exists>w \<in> set (Args phis_ir 2) - {InstRef 2}. v \<noteq> w"
    unfolding phis_ir_Args by (rule bexI [of _ "ImmU32 7"], rule bexI [of _ "ImmU32 8"]) simp_all
  with TryRemoveTrivialPhi_cases [OF b(1), of 0 UndefU32]
  have 2: "TryRemoveTrivialPhi 2 0 UndefU32 phis_ir = (InstRef 2, phis_ir)"
    by blast
  have l: "remove1 3 (instructions (block_of phis_ir 0)) = [0, 2, 4]"
    by (simp add: phis_ir_facts)
  have t: "takeWhile (IsPhi phis_ir) [0, 2, 4] = [0, 2]" "dropWhile (IsPhi phis_ir) [0, 2, 4] = [4]"
    by (simp_all add: phis_ir_facts)
  have "\<exists>p'. TryRemoveTrivialPhi 3 0 UndefU32 phis_ir = (InstRef 5, ReplaceUsesWith 3 (InstRef 5) p') \<and>
      inst_of p' = (inst_of phis_ir)(5 := \<lparr>opcode = UndefU32, flags = None, args = [], phi_args = []\<rparr>) \<and>
      instructions (block_of p' 0) = [0, 2, 5, 3, 4]"
  proof -
    from TryRemoveTrivialPhi_cases [OF c(1), of 0 UndefU32] c(2)
    obtain p' where "TryRemoveTrivialPhi 3 0 UndefU32 phis_ir =
        (InstRef (num_insts phis_ir), ReplaceUsesWith 3 (InstRef (num_insts phis_ir)) p')"
      "inst_of p' = (inst_of phis_ir)(num_insts phis_ir := \<lparr>opcode = UndefU32, flags = None, args = [], phi_args = []\<rparr>)"
      "instructions (block_of p' 0) =
         takeWhile (IsPhi phis_ir) (remove1 3 (instructions (block_of phis_ir 0))) @ [num_insts phis_ir, 3] @
         dropWhile (IsPhi phis_ir) (remove1 3 (instructions (block_of phis_ir 0)))"
      unfolding Let_def by blast
    then show ?thesis
      unfolding l t phis_ir_facts(2) by (intro exI [of _ p']) simp
  qed
  then obtain p' where 3: "TryRemoveTrivialPhi 3 0 UndefU32 phis_ir = (InstRef 5, ReplaceUsesWith 3 (InstRef 5) p')"
    "inst_of p' = (inst_of phis_ir)(5 := \<lparr>opcode = UndefU32, flags = None, args = [], phi_args = []\<rparr>)"
    "instructions (block_of p' 0) = [0, 2, 5, 3, 4]"
    by blast
  have 4: "args (inst_of (ReplaceUsesWith 3 (InstRef 5) p') 4) = [InstRef 0, InstRef 5]"
    by (simp add: ReplaceUsesWith_def replace_value_def 3(2) phis_ir_facts)
  have 5: "opcode (inst_of (ReplaceUsesWith 3 (InstRef 5) p') 5) = UndefU32"
    by (simp add: 3(2))
  have 6: "instructions (block_of (ReplaceUsesWith 3 (InstRef 5) p') 0) = [0, 2, 5, 3, 4]"
    by (simp add: 3(3))
  show ?thesis
    unfolding 1 2 3(1) fst_conv snd_conv 4 5 6 using a b c by simp
qed


section \<open>Reading a variable\<close>

lemma prepare_action:
  "prepare_phi_operand variable (fr # rest, st) =
     (case prepare_action variable fr st of
        None \<Rightarrow> None
      | Some (a, st') \<Rightarrow> Some (apply_action a rest, st'))"
  by (simp add: prepare_phi_operand_def prepare_action_def apply_action_def pop_back_result_def
        split_beta split: list.splits option.splits)

lemma step_action:
  "ReadVariable_step variable (fr # rest, st) =
     (case top_action variable fr st of
        None \<Rightarrow> None
      | Some (a, st') \<Rightarrow> Some (apply_action a rest, st'))"
proof (cases "ReadState.block fr")
  case None
  then show ?thesis by (simp add: ReadVariable_step_def top_action_def)
next
  case (Some b)
  have pop: "\<And>v. pop_back_result v (fr # rest) = apply_action (Pop v) rest"
    "\<And>v x. pop_back_result v (fr\<lparr>result := x\<rparr> # rest) = apply_action (Pop v) rest"
    by (simp_all add: pop_back_result_def apply_action_def)
  have push: "\<And>g f. g # f # rest = apply_action (Push g f) rest"
    by (simp add: apply_action_def)
  show ?thesis
  proof (cases "pc fr")
    case Start
    show ?thesis
    proof (cases "current_def st variable b")
      case None
      with Some Start show ?thesis
        by (simp add: ReadVariable_step_def top_action_def set_value_def prepare_action new_phi_def
              split_beta Let_def pop push)
    next
      case (Some v)
      with \<open>ReadState.block fr = Some b\<close> Start show ?thesis
        by (simp add: ReadVariable_step_def top_action_def set_value_def pop)
    qed
  next
    case SetValue
    with Some show ?thesis
      by (simp add: ReadVariable_step_def top_action_def set_value_def pop)
  next
    case PreparePhiArgument
    with Some show ?thesis
      by (simp add: ReadVariable_step_def top_action_def prepare_action)
  next
    case PushPhiArgument
    with Some show ?thesis
      by (cases "phi fr"; cases "pred_it fr")
         (simp_all add: ReadVariable_step_def top_action_def prepare_action)
  qed
qed


lemma loop_action:
  "ReadVariable_loop variable (fr # rest, st) =
     (case top_action variable fr st of
        None \<Rightarrow> None
      | Some (a, st') \<Rightarrow> finish variable (apply_action a rest, st'))"
  by (subst ReadVariable_loop.simps) (simp add: step_action finish_def split: option.splits)

lemma finish_long [simp]: "finish variable (f # g # rest, st) = ReadVariable_loop variable (f # g # rest, st)"
  by (simp add: finish_def)

lemma finish_single [simp]: "finish variable ([f], st) = Some (result f, st)"
  by (simp add: finish_def)

lemma apply_action_append:
  "apply_action a (fs @ f # below) =
     (case a of
        Pop v \<Rightarrow> (case fs of [] \<Rightarrow> f\<lparr>result := v\<rparr> # below | h # hs \<Rightarrow> h\<lparr>result := v\<rparr> # hs @ f # below)
      | Push g fr' \<Rightarrow> g # fr' # fs @ f # below)"
  by (simp add: apply_action_def split: Action.splits list.splits)

text \<open>A run that returns from the frames \<open>fs\<close> above a bottom frame does the same above
  any other frames, and leaves its result in the frame below \<open>fs\<close>.\<close>

lemma loop_lift:
  assumes "ReadVariable_loop variable c = Some y"
  shows "\<forall>fs bot st. c = (fs @ [bot], st) \<and> fs \<noteq> [] \<longrightarrow>
           (\<forall>f below. finish variable (fs @ f # below, st) = finish variable (f\<lparr>result := fst y\<rparr> # below, snd y))"
proof (rule ReadVariable_loop.raw_induct
    [where P = "\<lambda>variable c y. \<forall>fs bot st. c = (fs @ [bot], st) \<and> fs \<noteq> [] \<longrightarrow>
           (\<forall>f below. finish variable (fs @ f # below, st) = finish variable (f\<lparr>result := fst y\<rparr> # below, snd y))",
     OF _ assms], goal_cases)
  case (1 loop variable c y)
  show ?case
  proof (intro allI impI)
    fix fs bot st f below
    assume c: "c = (fs @ [bot], st) \<and> fs \<noteq> []"
    then obtain fr fs' where fs: "fs = fr # fs'" by (cases fs) auto
    from 1(2) c fs obtain a st1 where a: "top_action variable fr st = Some (a, st1)"
      by (auto simp: step_action split: option.splits)
    have "finish variable (fs @ f # below, st) = ReadVariable_loop variable (fr # fs' @ f # below, st)"
      using fs by (simp add: finish_def)
    then have big: "finish variable (fs @ f # below, st) = finish variable (apply_action a (fs' @ f # below), st1)"
      using a by (simp add: loop_action)
    have small: "(if 1 < length (apply_action a (fs' @ [bot])) then loop variable (apply_action a (fs' @ [bot]), st1)
                  else case apply_action a (fs' @ [bot]) of [] \<Rightarrow> None | g # x \<Rightarrow> Some (result g, st1)) = Some y"
      using 1(2) c fs a by (auto simp: step_action split: if_splits list.splits)
    show "finish variable (fs @ f # below, st) = finish variable (f\<lparr>result := fst y\<rparr> # below, snd y)"
    proof (cases a)
      case (Push g fr')
      with small have "loop variable ((g # fr' # fs') @ [bot], st1) = Some y"
        by (simp add: apply_action_def)
      from 1(1) [OF this, rule_format, of "g # fr' # fs'" bot st1 f below]
      show ?thesis using big Push by (simp add: apply_action_def)
    next
      case (Pop v)
      show ?thesis
      proof (cases fs')
        case Nil
        with small Pop have "y = (v, st1)" by (auto simp: apply_action_def)
        with big Pop Nil show ?thesis by (simp add: apply_action_def)
      next
        case (Cons h hs)
        with small Pop have "loop variable ((h\<lparr>result := v\<rparr> # hs) @ [bot], st1) = Some y"
          by (cases hs) (simp_all add: apply_action_def)
        from 1(1) [OF this, rule_format, of "h\<lparr>result := v\<rparr> # hs" bot st1 f below]
        show ?thesis using big Pop Cons by (simp add: apply_action_def)
      qed
    qed
  qed
qed

section \<open>Termination of the pass\<close>

lemma ReadVariable_loop_self_loop:
  assumes "ReadVariable_loop variable c = Some y"
  shows "\<not> (\<exists>fr rest st b. c = (fr # rest, st) \<and> ReadState.block fr = Some b \<and> pc fr = Start \<and>
              current_def st variable b = None \<and> b \<in> sealed_blocks st \<and>
              ImmediatePredecessors (prog st) b = [b])"
proof (rule ReadVariable_loop.raw_induct
    [where P = "\<lambda>variable c y. \<not> (\<exists>fr rest st b. c = (fr # rest, st) \<and> ReadState.block fr = Some b \<and> pc fr = Start \<and>
              current_def st variable b = None \<and> b \<in> sealed_blocks st \<and>
              ImmediatePredecessors (prog st) b = [b])", OF _ assms], goal_cases)
  case (1 loop variable c y)
  show ?case
  proof
    assume "\<exists>fr rest st b. c = (fr # rest, st) \<and> ReadState.block fr = Some b \<and> pc fr = Start \<and>
              current_def st variable b = None \<and> b \<in> sealed_blocks st \<and>
              ImmediatePredecessors (prog st) b = [b]"
    then obtain fr rest st b where c: "c = (fr # rest, st)" "ReadState.block fr = Some b" "pc fr = Start"
      "current_def st variable b = None" "b \<in> sealed_blocks st" "ImmediatePredecessors (prog st) b = [b]"
      by blast
    then have "ReadVariable_step variable c =
        Some (new_ReadState (Some b) # fr\<lparr>pc := SetValue\<rparr> # rest, st)"
      by (simp add: step_action top_action_def apply_action_def)
    with 1(2) have "loop variable (new_ReadState (Some b) # fr\<lparr>pc := SetValue\<rparr> # rest, st) = Some y"
      by simp
    from 1(1) [OF this] c show False
      by (simp add: new_ReadState_def)
  qed
qed

lemma ReadVariable_self_loop:
  assumes "current_def st variable b = None" "b \<in> sealed_blocks st"
    "ImmediatePredecessors (prog st) b = [b]"
  shows "ReadVariable variable b st = None"
proof (cases "ReadVariable variable b st")
  case None
  then show ?thesis .
next
  case (Some y)
  then have "ReadVariable_loop variable ([new_ReadState (Some b), new_ReadState None], st) = Some y"
    by (simp add: ReadVariable_def)
  from ReadVariable_loop_self_loop [OF this] assms show ?thesis
    by (simp add: new_ReadState_def)
qed

lemma ReadVariable_defined:
  "current_def st variable b = Some v \<Longrightarrow>
   ReadVariable variable b st = Some (v, WriteVariable variable b v st)"
  by (simp add: ReadVariable_def loop_action top_action_def new_ReadState_def apply_action_def)

lemma ReadVariable_unsealed:
  "current_def st variable b = None \<Longrightarrow> b \<notin> sealed_blocks st \<Longrightarrow>
   ReadVariable variable b st =
     Some (InstRef (num_insts (prog st)),
           WriteVariable variable b (InstRef (num_insts (prog st)))
             ((new_phi b st)\<lparr>incomplete_phis := (incomplete_phis st)
                 (b := insert_or_assign variable (num_insts (prog st)) (incomplete_phis st b))\<rparr>))"
  by (simp add: ReadVariable_def loop_action top_action_def new_ReadState_def apply_action_def)

lemma ReplaceUsesWith_preds [simp]:
  "ImmediatePredecessors (ReplaceUsesWith t r p) = ImmediatePredecessors p"
  by (simp add: ImmediatePredecessors_def fun_eq_iff)

lemma self_loop_program_facts:
  "opcode (inst_of (code self_loop_program) 0) = Opcode.BranchConditional"
  "opcode (inst_of (code self_loop_program) (Suc 0)) = Opcode.Return"
  "opcode (inst_of (code self_loop_program) 2) = GetRegister"
  "Arg (code self_loop_program) 2 0 = Inr (ImmReg (R 3))"
  "num_insts (code self_loop_program) = 3"
  "instructions (block_of (code self_loop_program) 0) = [0]"
  "instructions (block_of (code self_loop_program) 2) = [2, 1]"
  "ImmediatePredecessors (code self_loop_program) 0 = [0]"
  "ImmediatePredecessors (code self_loop_program) 2 = [0]"
  "post_order_blocks self_loop_program = [2, 0]"
  by (simp_all add: self_loop_program_def mk_ir_def mk_inst_def mk_block_def Arg_def Args_def
        ImmediatePredecessors_def)

lemma visit_block_0:
  "VisitBlock 0 (new_Pass (code self_loop_program)) =
     Some (Inr ((new_Pass (code self_loop_program))\<lparr>sealed_blocks := {0}\<rparr>))"
  by (simp add: VisitBlock_def VisitInst_def SealBlock_def new_Pass_def self_loop_program_facts)

lemma visit_block_2:
  "VisitBlock 2 ((new_Pass (code self_loop_program))\<lparr>sealed_blocks := {0}\<rparr>) = None"
proof -
  define st1 where "st1 = (new_Pass (code self_loop_program))\<lparr>sealed_blocks := {0}\<rparr>"
  define st' where "st' = WriteVariable (VReg (R 3)) 2 (InstRef 3)
             ((new_phi 2 st1)\<lparr>incomplete_phis := (incomplete_phis st1)
                 (2 := insert_or_assign (VReg (R 3)) 3 (incomplete_phis st1 2))\<rparr>)"
  define st2 where "st2 = st'\<lparr>prog := ReplaceUsesWith 2 (InstRef 3) (prog st')\<rparr>"
  have st1: "current_def st1 (VReg (R 3)) 2 = None" "2 \<notin> sealed_blocks st1" "num_insts (prog st1) = 3"
    "opcode (inst_of (prog st1) 2) = GetRegister" "Arg (prog st1) 2 0 = Inr (ImmReg (R 3))"
    "instructions (block_of (prog st1) 2) = [2, 1]"
    by (simp_all add: st1_def new_Pass_def self_loop_program_facts)
  have r: "ReadVariable (VReg (R 3)) 2 st1 = Some (InstRef 3, st')"
    using ReadVariable_unsealed [OF st1(1,2)] by (simp add: st'_def st1(3))
  have v2: "VisitInst 2 2 st1 = Some (Inr st2)"
    using r by (simp add: VisitInst_def arg0_def read_replace_def st1 st2_def)
  have op1: "opcode (inst_of (prog st2) 1) = Opcode.Return"
    by (simp add: st2_def st'_def st1_def WriteVariable_def new_phi_def new_Pass_def self_loop_program_facts)
  have v1: "VisitInst 2 1 st2 = Some (Inr st2)"
    unfolding VisitInst_def op1 by simp
  have loop: "VisitBlock_loop 2 [2, 1] st1 = Some (Inr st2)"
    using v2 v1 by simp
  have facts: "current_def st2 (VReg (R 3)) 0 = None" "0 \<in> sealed_blocks st2"
    "ImmediatePredecessors (prog st2) 0 = [0]" "ImmediatePredecessors (prog st2) 2 = [0]"
    "incomplete_phis st2 2 = [(VReg (R 3), 3)]"
    by (simp_all add: st2_def st'_def st1_def WriteVariable_def new_phi_def new_Pass_def self_loop_program_facts)
  have "ReadVariable (VReg (R 3)) 0 st2 = None"
    using facts(1-3) by (rule ReadVariable_self_loop)
  then have "SealBlock 2 st2 = None"
    by (simp add: SealBlock_def facts AddPhiOperands_def)
  with loop show ?thesis
    by (simp add: VisitBlock_def st1 st1_def [symmetric])
qed

text \<open>C9 as stated fails. In \<open>self_loop_program\<close> block 0 branches to itself or to block 2,
  so it is its own and only predecessor, and block 2 reads R3, which nothing writes. When
  block 2 is sealed, the read of R3 in block 0 finds a sealed block with one predecessor
  and no definition, pushes that predecessor, which is block 0 again, and so on: the
  pass does not return.\<close>

theorem SsaRewritePass_self_loop_no_return:
  "SsaRewritePass self_loop_program = None"
  by (simp add: SsaRewritePass_def self_loop_program_facts visit_block_0 visit_block_2)

lemma extends_refl [simp]: "extends st st"
  by (simp add: extends_def)

lemma extends_trans: "extends st st1 \<Longrightarrow> extends st1 st2 \<Longrightarrow> extends st st2"
  by (simp add: extends_def)

lemma is_Reg_replace: "is_Reg v \<Longrightarrow> replace_value t r v = v"
  by (cases v) (simp_all add: replace_value_def)

lemma is_Pred_replace: "is_Pred v \<Longrightarrow> replace_value t r v = v"
  by (cases v) (simp_all add: replace_value_def)

lemma is_U32_replace: "is_U32 v \<Longrightarrow> replace_value t r v = v"
  by (cases v) (simp_all add: replace_value_def)

lemma well_formed_inst_replace:
  "well_formed_inst i \<Longrightarrow>
   well_formed_inst (i\<lparr>args := map (replace_value t r) (args i), phi_args := pa\<rparr>)"
  by (cases "opcode i")
     (auto simp: well_formed_inst_def is_Reg_replace is_Pred_replace is_U32_replace)

lemma well_formed_ReplaceUsesWith: "well_formed p \<Longrightarrow> well_formed (ReplaceUsesWith t r p)"
  by (simp add: well_formed_def ReplaceUsesWith_def well_formed_inst_replace)

lemma well_formed_inst_phi_args:
  "well_formed_inst (i\<lparr>phi_args := pa\<rparr>) = well_formed_inst i"
  by (simp add: well_formed_inst_def)

lemma well_formed_AddPhiOperand: "well_formed p \<Longrightarrow> well_formed (AddPhiOperand ph q v p)"
  by (simp add: well_formed_def AddPhiOperand_def well_formed_inst_phi_args)

lemma well_formed_PrependNewInst:
  "well_formed p \<Longrightarrow> op \<in> {Phi, UndefU1, UndefU32} \<Longrightarrow>
   well_formed (snd (PrependNewInst b pos op None [] p))"
  by (auto simp: well_formed_def well_formed_inst_def)

lemma UndefOpcode_cases: "UndefOpcode x \<in> {Phi, UndefU1, UndefU32}"
  by (cases x) simp_all

lemma well_formed_block_of [simp]: "well_formed (p\<lparr>block_of := f\<rparr>) = well_formed p"
  by (simp add: well_formed_def)

lemma well_formed_InsertUndef:
  "well_formed p \<Longrightarrow> op \<in> {Phi, UndefU1, UndefU32} \<Longrightarrow> well_formed (snd (InsertUndef ph b op p))"
  by (auto simp: well_formed_def well_formed_inst_def)

lemma well_formed_TryRemoveTrivialPhi:
  "well_formed p \<Longrightarrow> well_formed (snd (TryRemoveTrivialPhi ph b (UndefOpcode x) p))"
  using UndefOpcode_cases [of x]
  by (auto simp: TryRemoveTrivialPhi_def split_beta split: option.splits
        intro!: well_formed_ReplaceUsesWith well_formed_InsertUndef)

lemma AddPhiOperand_preds [simp]:
  "ImmediatePredecessors (AddPhiOperand ph q v p) = ImmediatePredecessors p"
  by (simp add: ImmediatePredecessors_def AddPhiOperand_def fun_eq_iff)

lemma InsertUndef_preds [simp]:
  "ImmediatePredecessors (snd (InsertUndef ph b op p)) = ImmediatePredecessors p"
  by (simp add: InsertUndef_def Let_def split_beta ImmediatePredecessors_def PrependNewInst_def fun_eq_iff)

lemma TryRemoveTrivialPhi_preds [simp]:
  "ImmediatePredecessors (snd (TryRemoveTrivialPhi ph b op p)) = ImmediatePredecessors p"
  by (simp add: TryRemoveTrivialPhi_def split_beta split: option.splits)

lemma new_phi_simps [simp]:
  "ImmediatePredecessors (prog (new_phi b st)) = ImmediatePredecessors (prog st)"
  "current_def (new_phi b st) = current_def st"
  "sealed_blocks (new_phi b st) = sealed_blocks st"
  "incomplete_phis (new_phi b st) = incomplete_phis st"
  "num_insts (prog (new_phi b st)) = Suc (num_insts (prog st))"
  by (simp_all add: new_phi_def)

lemma well_formed_new_phi: "well_formed (prog st) \<Longrightarrow> well_formed (prog (new_phi b st))"
  by (simp add: new_phi_def well_formed_PrependNewInst)

lemma WriteVariable_simps [simp]:
  "prog (WriteVariable x b v st) = prog st"
  "sealed_blocks (WriteVariable x b v st) = sealed_blocks st"
  "incomplete_phis (WriteVariable x b v st) = incomplete_phis st"
  "current_def (WriteVariable x b v st) y b' =
     (if y = x \<and> b' = b then Some v else current_def st y b')"
  by (simp_all add: WriteVariable_def)

lemma extends_WriteVariable: "extends st st1 \<Longrightarrow> extends st (WriteVariable x b v st1)"
  by (simp add: extends_def)

lemma prepare_action_extends:
  "prepare_action variable fr st = Some (a, st1) \<Longrightarrow> extends st st1"
  by (auto simp: prepare_action_def extends_def well_formed_TryRemoveTrivialPhi
        split: list.splits option.splits)

lemma top_action_extends:
  assumes "top_action variable fr st = Some (a, st1)"
  shows "extends st st1"
proof -
  have 1: "extends st (WriteVariable variable b (InstRef n) (new_phi b st))" for b n
    by (simp add: extends_def well_formed_new_phi)
  have 2: "extends st (st\<lparr>prog := AddPhiOperand ph q v (prog st)\<rparr>)" for ph q v
    by (simp add: extends_def well_formed_AddPhiOperand)
  have 3: "extends st (WriteVariable variable b (InstRef n) ((new_phi b st)\<lparr>incomplete_phis := ip\<rparr>))" for b n ip
    by (simp add: extends_def well_formed_new_phi)
  from assms show ?thesis
    by (auto simp: top_action_def extends_WriteVariable 3
          split: option.splits Status.splits if_splits list.splits
          dest!: prepare_action_extends intro: extends_trans [OF 1] extends_trans [OF 2])
qed

lemma loop_extends:
  assumes "ReadVariable_loop variable c = Some y"
  shows "extends (snd c) (snd y)"
proof (rule ReadVariable_loop.raw_induct
    [where P = "\<lambda>variable c y. extends (snd c) (snd y)", OF _ assms], goal_cases)
  case (1 loop variable c y)
  obtain stack st where c: "c = (stack, st)" by (cases c)
  show ?case
  proof (cases stack)
    case Nil
    with 1(2) c show ?thesis by (simp add: ReadVariable_step_def)
  next
    case (Cons fr rest)
    with 1(2) c obtain a st1 where a: "top_action variable fr st = Some (a, st1)"
      by (auto simp: step_action split: option.splits)
    then have e: "extends st st1" by (rule top_action_extends)
    show ?thesis
    proof (cases "1 < length (apply_action a rest)")
      case True
      with 1(2) c Cons a have "loop variable (apply_action a rest, st1) = Some y"
        by (simp add: step_action)
      from 1(1) [OF this] e c show ?thesis by (auto intro: extends_trans)
    next
      case False
      with 1(2) c Cons a have "snd y = st1"
        by (auto simp: step_action split: list.splits)
      with e c show ?thesis by simp
    qed
  qed
qed

lemma extends_undefined:
  "extends st st' \<Longrightarrow> current_def st' x b = None \<Longrightarrow> current_def st x b = None"
  unfolding extends_def by blast

lemma undefined_in_mono:
  "finite B \<Longrightarrow> extends st st' \<Longrightarrow> card (undefined_in B variable st') \<le> card (undefined_in B variable st)"
  by (rule card_mono) (auto simp: undefined_in_def dest: extends_undefined)

lemma undefined_in_less:
  assumes "finite B" "b \<in> B" "current_def st variable b = None"
  shows "card (undefined_in B variable (WriteVariable variable b v (new_phi b st)))
           < card (undefined_in B variable st)"
proof (rule psubset_card_mono)
  show "finite (undefined_in B variable st)" using assms(1) by (simp add: undefined_in_def)
  show "undefined_in B variable (WriteVariable variable b v (new_phi b st)) \<subset> undefined_in B variable st"
    using assms(2,3) by (auto simp: undefined_in_def)
qed

lemma returns_extends:
  assumes "\<forall>f below. finish variable (new_ReadState (Some b) # f # below, st) =
                      finish variable (f\<lparr>result := v\<rparr> # below, st')"
  shows "extends st st'"
proof -
  from assms have "ReadVariable_loop variable ([new_ReadState (Some b), new_ReadState None], st) = Some (v, st')"
    by (simp add: finish_def)
  from loop_extends [OF this] show ?thesis by simp
qed

text \<open>The phi arguments: reading the predecessors \<open>qs\<close> one after the other, then
  \<^verbatim>\<open>TryRemoveTrivialPhi\<close>, provided each read returns.\<close>

lemma phi_arguments_return:
  assumes reads: "\<And>q st2. q \<in> B \<Longrightarrow> card (undefined_in B variable st2) < n \<Longrightarrow>
            ImmediatePredecessors (prog st2) = preds \<Longrightarrow>
            \<exists>v st'. \<forall>f below. finish variable (new_ReadState (Some q) # f # below, st2) =
                               finish variable (f\<lparr>result := v\<rparr> # below, st')"
    and "finite B"
  shows "set qs \<subseteq> B \<Longrightarrow> card (undefined_in B variable st2) < n \<Longrightarrow>
         ImmediatePredecessors (prog st2) = preds \<Longrightarrow>
         phi fr = Some ph \<Longrightarrow> ReadState.block fr = Some b \<Longrightarrow> pred_it fr = qs \<Longrightarrow>
         \<exists>v st'. \<forall>f below.
           (case prepare_action variable fr st2 of
              None \<Rightarrow> None
            | Some (a, s) \<Rightarrow> finish variable (apply_action a (f # below), s)) =
           finish variable (f\<lparr>result := v\<rparr> # below, st')"
proof (induction qs arbitrary: st2 fr)
  case Nil
  then show ?case
    by (auto simp: prepare_action_def apply_action_def)
next
  case (Cons q qs)
  let ?fr = "fr\<lparr>pc := PushPhiArgument\<rparr>"
  from Cons.prems have q: "q \<in> B" by simp
  from reads [OF q Cons.prems(2,3)] obtain v1 st3 where
    r: "\<forall>f below. finish variable (new_ReadState (Some q) # f # below, st2) =
                   finish variable (f\<lparr>result := v1\<rparr> # below, st3)"
    by blast
  then have e: "extends st2 st3" by (rule returns_extends)
  let ?st3 = "st3\<lparr>prog := AddPhiOperand ph q v1 (prog st3)\<rparr>"
  let ?fr2 = "?fr\<lparr>result := v1, pred_it := qs\<rparr>"
  have m: "card (undefined_in B variable ?st3) < n"
  proof -
    have "undefined_in B variable ?st3 = undefined_in B variable st3"
      by (simp add: undefined_in_def)
    with undefined_in_mono [OF assms(2) e, of variable] Cons.prems(2) show ?thesis by simp
  qed
  have p: "ImmediatePredecessors (prog ?st3) = preds"
    using e Cons.prems(3) by (simp add: extends_def)
  from Cons.IH [OF _ m p, of ?fr2] Cons.prems obtain v st' where
    ih: "\<forall>f below.
           (case prepare_action variable ?fr2 ?st3 of
              None \<Rightarrow> None
            | Some (a, s) \<Rightarrow> finish variable (apply_action a (f # below), s)) =
           finish variable (f\<lparr>result := v\<rparr> # below, st')"
    by auto
  have "(case prepare_action variable fr st2 of
              None \<Rightarrow> None
            | Some (a, s) \<Rightarrow> finish variable (apply_action a (f # below), s)) =
           finish variable (f\<lparr>result := v\<rparr> # below, st')" for f below
  proof -
    have "(case prepare_action variable fr st2 of
              None \<Rightarrow> None
            | Some (a, s) \<Rightarrow> finish variable (apply_action a (f # below), s)) =
          finish variable (new_ReadState (Some q) # ?fr # f # below, st2)"
      using Cons.prems by (simp add: prepare_action_def apply_action_def)
    also have "\<dots> = finish variable (?fr\<lparr>result := v1\<rparr> # f # below, st3)"
      using r by blast
    also have "\<dots> = (case prepare_action variable ?fr2 ?st3 of
              None \<Rightarrow> None
            | Some (a, s) \<Rightarrow> finish variable (apply_action a (f # below), s))"
      using Cons.prems by (simp add: loop_action top_action_def)
    also have "\<dots> = finish variable (f\<lparr>result := v\<rparr> # below, st')"
      using ih by blast
    finally show ?thesis .
  qed
  then show ?case by blast
qed

text \<open>Every read returns, when the blocks form a finite set closed under immediate
  predecessors and a block with exactly one immediate predecessor has a greater rank than
  that predecessor.\<close>

lemma read_returns_aux:
  assumes "finite B" "\<forall>b\<in>B. set (preds b) \<subseteq> B"
    "\<forall>b\<in>B. \<forall>q. preds b = [q] \<longrightarrow> rk q < (rk b :: nat)"
  shows "\<forall>st b. (card (undefined_in B variable st), rk b) = x \<longrightarrow> b \<in> B \<longrightarrow>
           ImmediatePredecessors (prog st) = preds \<longrightarrow>
           (\<exists>v st'. \<forall>f below. finish variable (new_ReadState (Some b) # f # below, st) =
                              finish variable (f\<lparr>result := v\<rparr> # below, st'))"
proof (induction x rule: wf_induct_rule [OF wf_lex_prod [OF wf_less_than wf_less_than]])
  case (1 x)
  show ?case
  proof (intro allI impI)
    fix st b
    assume x: "(card (undefined_in B variable st), rk b) = x" and b: "b \<in> B"
      and p: "ImmediatePredecessors (prog st) = preds"
    let ?fr = "new_ReadState (Some b)"
    have ih: "\<exists>v st'. \<forall>f below. finish variable (new_ReadState (Some q) # f # below, st2) =
                              finish variable (f\<lparr>result := v\<rparr> # below, st')"
      if "q \<in> B" "ImmediatePredecessors (prog st2) = preds"
        "card (undefined_in B variable st2) < card (undefined_in B variable st) \<or>
         card (undefined_in B variable st2) = card (undefined_in B variable st) \<and> rk q < rk b"
      for q st2
      using 1 [of "(card (undefined_in B variable st2), rk q)"] that x by auto
    show "\<exists>v st'. \<forall>f below. finish variable (?fr # f # below, st) =
                              finish variable (f\<lparr>result := v\<rparr> # below, st')"
    proof (cases "current_def st variable b")
      case (Some v)
      then have "finish variable (?fr # f # below, st) =
                 finish variable (f\<lparr>result := v\<rparr> # below, WriteVariable variable b v st)" for f below
        by (simp add: loop_action top_action_def new_ReadState_def apply_action_def)
      then show ?thesis by blast
    next
      case None
      show ?thesis
      proof (cases "b \<in> sealed_blocks st")
        case False
        with None have "finish variable (?fr # f # below, st) =
             finish variable (f\<lparr>result := InstRef (num_insts (prog st))\<rparr> # below,
               WriteVariable variable b (InstRef (num_insts (prog st)))
                 ((new_phi b st)\<lparr>incomplete_phis := (incomplete_phis st)
                    (b := insert_or_assign variable (num_insts (prog st)) (incomplete_phis st b))\<rparr>))"
          for f below
          by (simp add: loop_action top_action_def new_ReadState_def apply_action_def)
        then show ?thesis by blast
      next
        case True
        show ?thesis
        proof (cases "length (preds b) = 1")
          case one: True
          then obtain q where q: "preds b = [q]" by (cases "preds b") auto
          with assms(2,3) b have qB: "q \<in> B" and rk: "rk q < rk b" by auto
          from ih [OF qB p] rk obtain v st' where
            r: "\<forall>f below. finish variable (new_ReadState (Some q) # f # below, st) =
                           finish variable (f\<lparr>result := v\<rparr> # below, st')"
            by blast
          have "finish variable (?fr # f # below, st) =
                finish variable (f\<lparr>result := v\<rparr> # below, WriteVariable variable b v st')" for f below
          proof -
            have "finish variable (?fr # f # below, st) =
                  finish variable (new_ReadState (Some q) # ?fr\<lparr>pc := SetValue\<rparr> # f # below, st)"
              using None True p q
              by (simp add: loop_action top_action_def new_ReadState_def apply_action_def)
            also have "\<dots> = finish variable (?fr\<lparr>pc := SetValue, result := v\<rparr> # f # below, st')"
              using r by simp
            also have "\<dots> = finish variable (f\<lparr>result := v\<rparr> # below, WriteVariable variable b v st')"
              by (simp add: loop_action top_action_def new_ReadState_def apply_action_def)
            finally show ?thesis .
          qed
          then show ?thesis by blast
        next
          case many: False
          let ?n = "num_insts (prog st)"
          let ?st1 = "WriteVariable variable b (InstRef ?n) (new_phi b st)"
          let ?fr1 = "?fr\<lparr>phi := Some ?n, pred_it := preds b\<rparr>"
          have less: "card (undefined_in B variable ?st1) < card (undefined_in B variable st)"
            using assms(1) b None by (rule undefined_in_less)
          have reads: "\<exists>v st'. \<forall>f below. finish variable (new_ReadState (Some q) # f # below, st2) =
                              finish variable (f\<lparr>result := v\<rparr> # below, st')"
            if "q \<in> B" "card (undefined_in B variable st2) < card (undefined_in B variable st)"
               "ImmediatePredecessors (prog st2) = preds" for q st2
            using ih [OF that(1,3)] that(2) by blast
          have "\<exists>v st'. \<forall>f below.
             (case prepare_action variable ?fr1 ?st1 of
                None \<Rightarrow> None
              | Some (a, s) \<Rightarrow> finish variable (apply_action a (f # below), s)) =
             finish variable (f\<lparr>result := v\<rparr> # below, st')"
          proof (rule phi_arguments_return [where B = B and preds = preds and qs = "preds b"
                and n = "card (undefined_in B variable st)" and ph = ?n and b = b])
            show "\<exists>v st'. \<forall>f below. finish variable (new_ReadState (Some q) # f # below, st2) =
                              finish variable (f\<lparr>result := v\<rparr> # below, st')"
              if "q \<in> B" "card (undefined_in B variable st2) < card (undefined_in B variable st)"
                 "ImmediatePredecessors (prog st2) = preds" for q st2
              using reads that by blast
            show "finite B" by (rule assms(1))
            show "set (preds b) \<subseteq> B" using assms(2) b by blast
            show "card (undefined_in B variable ?st1) < card (undefined_in B variable st)" by (rule less)
            show "ImmediatePredecessors (prog ?st1) = preds" using p by simp
          qed (simp_all add: new_ReadState_def)
          then obtain v st' where r: "\<forall>f below.
             (case prepare_action variable ?fr1 ?st1 of
                None \<Rightarrow> None
              | Some (a, s) \<Rightarrow> finish variable (apply_action a (f # below), s)) =
             finish variable (f\<lparr>result := v\<rparr> # below, st')"
            by blast
          have "finish variable (?fr # f # below, st) =
                (case prepare_action variable ?fr1 ?st1 of
                   None \<Rightarrow> None
                 | Some (a, s) \<Rightarrow> finish variable (apply_action a (f # below), s))" for f below
            using None True many p
            by (simp add: loop_action top_action_def new_ReadState_def)
          with r show ?thesis by auto
        qed
      qed
    qed
  qed
qed

lemma ReadVariable_returns:
  assumes "ranked B rk preds" "b \<in> B" "ImmediatePredecessors (prog st) = preds"
  shows "\<exists>v st'. ReadVariable variable b st = Some (v, st') \<and> extends st st'"
proof -
  from assms(1) have "finite B" "\<forall>b\<in>B. set (preds b) \<subseteq> B" "\<forall>b\<in>B. \<forall>q. preds b = [q] \<longrightarrow> rk q < rk b"
    by (simp_all add: ranked_def)
  from read_returns_aux [OF this, rule_format, OF refl assms(2,3)]
  obtain v st' where r: "\<forall>f below. finish variable (new_ReadState (Some b) # f # below, st) =
                              finish variable (f\<lparr>result := v\<rparr> # below, st')"
    by blast
  then have "ReadVariable variable b st = Some (v, st')"
    by (simp add: ReadVariable_def finish_def)
  moreover from r have "extends st st'" by (rule returns_extends)
  ultimately show ?thesis by blast
qed

lemma extends_prog_update:
  "ImmediatePredecessors p = ImmediatePredecessors (prog st) \<Longrightarrow>
   (well_formed (prog st) \<Longrightarrow> well_formed p) \<Longrightarrow> extends st (st\<lparr>prog := p\<rparr>)"
  by (auto simp: extends_def)

lemma AddPhiOperands_loop_returns:
  assumes "ranked B rk preds"
  shows "set qs \<subseteq> B \<Longrightarrow> ImmediatePredecessors (prog st) = preds \<Longrightarrow>
         \<exists>st'. AddPhiOperands_loop variable ph qs st = Some st' \<and> extends st st'"
proof (induction qs arbitrary: st)
  case Nil
  then show ?case by simp
next
  case (Cons q qs)
  from ReadVariable_returns [OF assms, of q st variable] Cons.prems
  obtain v st1 where r: "ReadVariable variable q st = Some (v, st1)" "extends st st1"
    by auto
  let ?st2 = "st1\<lparr>prog := AddPhiOperand ph q v (prog st1)\<rparr>"
  have e: "extends st1 ?st2"
    by (rule extends_prog_update) (simp_all add: well_formed_AddPhiOperand)
  have "ImmediatePredecessors (prog ?st2) = preds"
    using r(2) Cons.prems(2) by (simp add: extends_def)
  from Cons.IH [OF _ this] Cons.prems(1)
  obtain st' where "AddPhiOperands_loop variable ph qs ?st2 = Some st'" "extends ?st2 st'"
    by auto
  with r e show ?case
    by (auto intro: extends_trans)
qed

lemma AddPhiOperands_returns:
  assumes "ranked B rk preds" "b \<in> B" "ImmediatePredecessors (prog st) = preds"
  shows "\<exists>v st'. AddPhiOperands variable ph b st = Some (v, st') \<and> extends st st'"
proof -
  from assms have "set (ImmediatePredecessors (prog st) b) \<subseteq> B"
    by (auto simp: ranked_def)
  from AddPhiOperands_loop_returns [OF assms(1) this assms(3), of variable ph]
  obtain st1 where l: "AddPhiOperands_loop variable ph (ImmediatePredecessors (prog st) b) st = Some st1"
    "extends st st1"
    by blast
  let ?t = "TryRemoveTrivialPhi ph b (UndefOpcode variable) (prog st1)"
  have "extends st1 (st1\<lparr>prog := snd ?t\<rparr>)"
    by (rule extends_prog_update) (simp_all add: well_formed_TryRemoveTrivialPhi)
  with l show ?thesis
    by (auto simp: AddPhiOperands_def split_beta intro: extends_trans)
qed

lemma SealBlock_loop_returns:
  assumes "ranked B rk preds" "b \<in> B"
  shows "ImmediatePredecessors (prog st) = preds \<Longrightarrow>
         \<exists>st'. SealBlock_loop b m st = Some st' \<and> extends st st'"
proof (induction m arbitrary: st)
  case Nil
  then show ?case by simp
next
  case (Cons e m)
  obtain variant ph where e: "e = (variant, ph)" by (cases e)
  from AddPhiOperands_returns [OF assms Cons.prems, of variant ph]
  obtain v st1 where a: "AddPhiOperands variant ph b st = Some (v, st1)" "extends st st1"
    by blast
  then have "ImmediatePredecessors (prog st1) = preds"
    using Cons.prems by (simp add: extends_def)
  from Cons.IH [OF this] obtain st' where "SealBlock_loop b m st1 = Some st'" "extends st1 st'"
    by blast
  with a e show ?case by (auto intro: extends_trans)
qed

lemma SealBlock_returns:
  assumes "ranked B rk preds" "b \<in> B" "ImmediatePredecessors (prog st) = preds"
  shows "\<exists>st'. SealBlock b st = Some st' \<and> extends st st'"
proof -
  from SealBlock_loop_returns [OF assms, of "incomplete_phis st b"]
  obtain st1 where "SealBlock_loop b (incomplete_phis st b) st = Some st1" "extends st st1"
    by blast
  moreover have "extends st1 (st1\<lparr>sealed_blocks := insert b (sealed_blocks st1)\<rparr>)"
    by (simp add: extends_def)
  ultimately show ?thesis
    by (auto simp: SealBlock_def intro: extends_trans)
qed

lemma read_replace_returns:
  assumes "ranked B rk preds" "b \<in> B" "ImmediatePredecessors (prog st) = preds"
  shows "\<exists>st'. read_replace variable b inst st = Some (Inr st') \<and> extends st st'"
proof -
  from ReadVariable_returns [OF assms, of variable]
  obtain v st1 where r: "ReadVariable variable b st = Some (v, st1)" "extends st st1"
    by blast
  have "extends st1 (st1\<lparr>prog := ReplaceUsesWith inst v (prog st1)\<rparr>)"
    by (rule extends_prog_update) (simp_all add: well_formed_ReplaceUsesWith)
  with r show ?thesis
    by (auto simp: read_replace_def intro: extends_trans)
qed

lemma write_arg_returns:
  "k < length (Args (prog st) inst) \<Longrightarrow>
   \<exists>st'. write_arg variable b inst k st = Some (Inr st') \<and> extends st st'"
  by (simp add: write_arg_def Arg_def extends_WriteVariable)

lemma is_Reg_Value_Reg: "is_Reg v \<Longrightarrow> \<exists>r. Value_Reg v = Inr r"
  by (cases v) simp_all

lemma is_Pred_Value_Pred: "is_Pred v \<Longrightarrow> \<exists>r. Value_Pred v = Inr r"
  by (cases v) simp_all

lemma is_U32_Value_U32: "is_U32 v \<Longrightarrow> \<exists>r. Value_U32 v = Inr r"
  by (cases v) simp_all

lemma Arg_nonphi:
  "opcode (inst_of p i) \<noteq> Phi \<Longrightarrow> k < length (args (inst_of p i)) \<Longrightarrow>
   Arg p i k = Inr (args (inst_of p i) ! k)"
  by (simp add: Arg_def Args_def)

lemma arg0_access:
  "opcode (inst_of (prog st) i) \<noteq> Phi \<Longrightarrow> 0 < length (args (inst_of (prog st) i)) \<Longrightarrow>
   arg0 f i st = f (args (inst_of (prog st) i) ! 0)"
  by (simp add: arg0_def Arg_nonphi)

lemma VisitInst_returns:
  assumes "ranked B rk preds" "b \<in> B" "ImmediatePredecessors (prog st) = preds"
    and "well_formed (prog st)"
  shows "\<exists>st'. VisitInst b inst st = Some (Inr st') \<and> extends st st'"
proof -
  let ?i = "inst_of (prog st) inst"
  from assms(4) have wf: "valid_operands (opcode ?i) (args ?i)"
    by (simp add: well_formed_def well_formed_inst_def)
  note rr = read_replace_returns [OF assms(1-3)]
  have wr: "\<exists>st'. write_arg variable b inst k st = Some (Inr st') \<and> extends st st'"
    if "opcode ?i \<noteq> Phi" "k < length (args ?i)" for variable k
    using that by (intro write_arg_returns) (simp add: Args_def)
  show ?thesis
  proof (cases "opcode ?i")
    case SetRegister
    with wf obtain r where "Value_Reg (args ?i ! 0) = Inr r" "length (args ?i) = 2"
      by (auto dest: is_Reg_Value_Reg)
    with SetRegister show ?thesis
      by (simp add: VisitInst_def arg0_access wr)
  next
    case SetPred
    with wf obtain r where "Value_Pred (args ?i ! 0) = Inr r" "length (args ?i) = 2"
      by (auto dest: is_Pred_Value_Pred)
    with SetPred show ?thesis
      by (simp add: VisitInst_def arg0_access wr)
  next
    case SetGotoVariable
    with wf obtain r where "Value_U32 (args ?i ! 0) = Inr r" "length (args ?i) = 2"
      by (auto dest: is_U32_Value_U32)
    with SetGotoVariable show ?thesis
      by (simp add: VisitInst_def arg0_access wr)
  next
    case GetRegister
    with wf obtain r where "Value_Reg (args ?i ! 0) = Inr r" "length (args ?i) = 1"
      by (auto dest: is_Reg_Value_Reg)
    with GetRegister rr show ?thesis
      by (simp add: VisitInst_def arg0_access)
  next
    case GetPred
    with wf obtain r where "Value_Pred (args ?i ! 0) = Inr r" "length (args ?i) = 1"
      by (auto dest: is_Pred_Value_Pred)
    with GetPred rr show ?thesis
      by (simp add: VisitInst_def arg0_access)
  next
    case GetGotoVariable
    with wf obtain r where "Value_U32 (args ?i ! 0) = Inr r" "length (args ?i) = 1"
      by (auto dest: is_U32_Value_U32)
    with GetGotoVariable rr show ?thesis
      by (simp add: VisitInst_def arg0_access)
  qed (use wf rr wr in \<open>simp_all add: VisitInst_def\<close>)
qed

lemma VisitBlock_loop_returns:
  assumes "ranked B rk preds" "b \<in> B"
  shows "ImmediatePredecessors (prog st) = preds \<Longrightarrow> well_formed (prog st) \<Longrightarrow>
         \<exists>st'. VisitBlock_loop b insts st = Some (Inr st') \<and> extends st st'"
proof (induction insts arbitrary: st)
  case Nil
  then show ?case by simp
next
  case (Cons i insts)
  from VisitInst_returns [OF assms Cons.prems, of i]
  obtain st1 where v: "VisitInst b i st = Some (Inr st1)" "extends st st1"
    by blast
  with Cons.prems have "ImmediatePredecessors (prog st1) = preds" "well_formed (prog st1)"
    by (simp_all add: extends_def)
  from Cons.IH [OF this] obtain st' where "VisitBlock_loop b insts st1 = Some (Inr st')" "extends st1 st'"
    by blast
  with v show ?case by (auto intro: extends_trans)
qed

lemma VisitBlock_returns:
  assumes "ranked B rk preds" "b \<in> B" "ImmediatePredecessors (prog st) = preds" "well_formed (prog st)"
  shows "\<exists>st'. VisitBlock b st = Some (Inr st') \<and> extends st st'"
proof -
  from VisitBlock_loop_returns [OF assms, of "instructions (block_of (prog st) b)"]
  obtain st1 where l: "VisitBlock_loop b (instructions (block_of (prog st) b)) st = Some (Inr st1)"
    "extends st st1"
    by blast
  with assms(3) have "ImmediatePredecessors (prog st1) = preds" by (simp add: extends_def)
  from SealBlock_returns [OF assms(1,2) this] obtain st' where "SealBlock b st1 = Some st'" "extends st1 st'"
    by blast
  with l show ?thesis
    by (auto simp: VisitBlock_def intro: extends_trans)
qed

lemma SsaRewritePass_loop_returns:
  assumes "ranked B rk preds"
  shows "set bs \<subseteq> B \<Longrightarrow> ImmediatePredecessors (prog st) = preds \<Longrightarrow> well_formed (prog st) \<Longrightarrow>
         \<exists>st'. SsaRewritePass_loop bs st = Some (Inr st') \<and> extends st st'"
proof (induction bs arbitrary: st)
  case Nil
  then show ?case by simp
next
  case (Cons b bs)
  then have "b \<in> B" by simp
  from VisitBlock_returns [OF assms this Cons.prems(2,3)]
  obtain st1 where v: "VisitBlock b st = Some (Inr st1)" "extends st st1"
    by blast
  with Cons.prems have "ImmediatePredecessors (prog st1) = preds" "well_formed (prog st1)"
    by (simp_all add: extends_def)
  from Cons.IH [OF _ this] Cons.prems(1)
  obtain st' where "SsaRewritePass_loop bs st1 = Some (Inr st')" "extends st1 st'"
    by auto
  with v show ?case by (auto intro: extends_trans)
qed

lemma well_formed_mk_ir: "list_all well_formed_inst is \<Longrightarrow> well_formed (mk_ir is bs)"
  by (auto simp: well_formed_def mk_ir_def list_all_length well_formed_inst_def mk_inst_def)


section \<open>Every read is replaced\<close>

lemma avoids_high: "low G n0 \<Longrightarrow> n0 \<le> n \<Longrightarrow> avoids G (InstRef n)"
  by (auto simp: avoids_def low_def)

lemma avoids_Empty [simp]: "avoids G Empty"
  by (simp add: avoids_def)

lemma ir_inv_antimono: "ir_inv G n0 p0 D p \<Longrightarrow> D' \<subseteq> D \<Longrightarrow> ir_inv G n0 p0 D' p"
  unfolding ir_inv_def by blast

lemma filter_insert_high:
  "\<not> Q n \<Longrightarrow> filter Q (take k l @ [n] @ drop k l) = filter Q l"
  using filter_append [of Q "take k l" "drop k l"] by simp

lemma ir_inv_PrependNewInst:
  assumes "ir_inv G n0 p0 D p"
  shows "ir_inv G n0 p0 D (snd (PrependNewInst b pos op None [] p))"
proof -
  from assms have n: "n0 \<le> num_insts p" by (simp add: ir_inv_def)
  have rv: "read_variable_of (snd (PrependNewInst b pos op None [] p)) j = read_variable_of p j"
    if "j < n0" for j
    using that n by (simp add: read_variable_of_def)
  have fl: "filter (\<lambda>i. i < n0) (instructions (block_of (snd (PrependNewInst b pos op None [] p)) b')) =
            filter (\<lambda>i. i < n0) (instructions (block_of p b'))" for b'
    using n by (simp add: filter_insert_high del: filter_append append.simps)
  have ops: "set (operands (inst_of (snd (PrependNewInst b pos op None [] p)) j)) \<subseteq>
             set (operands (inst_of p j))" for j
    by (simp add: operands_def)
  show ?thesis
    unfolding ir_inv_def
  proof (intro conjI allI impI ballI)
    show "n0 \<le> num_insts (snd (PrependNewInst b pos op None [] p))" using n by simp
  next
    fix j g assume "g \<in> G" "InstRef g \<in> set (operands (inst_of (snd (PrependNewInst b pos op None [] p)) j))"
    with ops have "InstRef g \<in> set (operands (inst_of p j))" by blast
    with assms \<open>g \<in> G\<close> show "j < n0" "InstRef g \<in> set (operands (inst_of p0 j))" "g \<notin> D"
      by (auto simp: ir_inv_def)
  next
    fix j x assume "j < n0" "read_variable_of p0 j = Some x"
    with assms rv show "read_variable_of (snd (PrependNewInst b pos op None [] p)) j = Some x"
      by (simp add: ir_inv_def)
  next
    fix b' show "filter (\<lambda>i. i < n0) (instructions (block_of (snd (PrependNewInst b pos op None [] p)) b')) =
                 filter (\<lambda>i. i < n0) (instructions (block_of p0 b'))"
      using fl assms by (simp add: ir_inv_def)
  qed
qed

lemma ir_inv_AddPhiOperand:
  assumes "ir_inv G n0 p0 D p" "avoids G v"
  shows "ir_inv G n0 p0 D (AddPhiOperand ph q v p)"
proof -
  have ops: "set (operands (inst_of (AddPhiOperand ph q v p) j)) \<subseteq> insert v (set (operands (inst_of p j)))" for j
    by (auto simp: operands_def AddPhiOperand_def)
  have rv: "read_variable_of (AddPhiOperand ph q v p) j = read_variable_of p j" for j
    by (simp add: read_variable_of_def AddPhiOperand_def)
  show ?thesis
    unfolding ir_inv_def
  proof (intro conjI allI impI ballI)
    show "n0 \<le> num_insts (AddPhiOperand ph q v p)"
      using assms(1) by (simp add: ir_inv_def AddPhiOperand_def)
  next
    fix j g assume g: "g \<in> G" "InstRef g \<in> set (operands (inst_of (AddPhiOperand ph q v p) j))"
    with assms(2) have "InstRef g \<noteq> v" by (auto simp: avoids_def)
    with g ops have "InstRef g \<in> set (operands (inst_of p j))" by blast
    with assms(1) g show "j < n0" "InstRef g \<in> set (operands (inst_of p0 j))" "g \<notin> D"
      by (auto simp: ir_inv_def)
  next
    fix j x assume "j < n0" "read_variable_of p0 j = Some x"
    with assms(1) rv show "read_variable_of (AddPhiOperand ph q v p) j = Some x"
      by (simp add: ir_inv_def)
  next
    fix b show "filter (\<lambda>i. i < n0) (instructions (block_of (AddPhiOperand ph q v p) b)) =
                filter (\<lambda>i. i < n0) (instructions (block_of p0 b))"
      using assms(1) by (simp add: ir_inv_def AddPhiOperand_def)
  qed
qed

lemma Value_Reg_Inr: "Value_Reg v = Inr q \<longleftrightarrow> v = ImmReg q"
  by (cases v) auto

lemma Value_Pred_Inr: "Value_Pred v = Inr q \<longleftrightarrow> v = ImmPred q"
  by (cases v) auto

lemma Value_U32_Inr: "Value_U32 v = Inr q \<longleftrightarrow> v = ImmU32 q"
  by (cases v) auto

lemma variable_read_head: "variable_read op (v # vs) = variable_read op (v # vs')"
  by (simp add: variable_read_def)

lemma variable_read_replace:
  assumes "variable_read op as = Some x"
  shows "variable_read op (map (replace_value t r) as) = Some x"
proof (cases as)
  case Nil
  with assms show ?thesis by simp
next
  case (Cons v vs)
  show ?thesis
  proof (cases "op = GetRegister \<or> op = GetPred \<or> op = GetGotoVariable")
    case False
    with assms show ?thesis by (simp add: variable_read_def)
  next
    case True
    with assms Cons have "replace_value t r v = v"
      by (auto simp: variable_read_def replace_value_def Value_Reg_Inr Value_Pred_Inr Value_U32_Inr
            split: sum.splits if_splits)
    then have "variable_read op (map (replace_value t r) as) = variable_read op (v # map (replace_value t r) vs)"
      using Cons by simp
    also have "\<dots> = variable_read op (v # vs)" by (rule variable_read_head)
    finally show ?thesis using assms Cons by simp
  qed
qed

lemma operands_ReplaceUsesWith:
  "set (operands (inst_of (ReplaceUsesWith t r p) j)) = replace_value t r ` set (operands (inst_of p j))"
  by (auto simp: operands_def ReplaceUsesWith_def image_iff split_beta)

lemma ir_inv_ReplaceUsesWith:
  assumes "ir_inv G n0 p0 D p" "avoids G r"
  shows "ir_inv G n0 p0 (D \<union> {t}) (ReplaceUsesWith t r p)"
  unfolding ir_inv_def
proof (intro conjI allI impI ballI)
  show "n0 \<le> num_insts (ReplaceUsesWith t r p)"
    using assms(1) by (simp add: ir_inv_def)
next
  fix j g assume g: "g \<in> G" "InstRef g \<in> set (operands (inst_of (ReplaceUsesWith t r p) j))"
  then obtain v where v: "v \<in> set (operands (inst_of p j))" "replace_value t r v = InstRef g"
    by (auto simp: operands_ReplaceUsesWith)
  from assms(2) g(1) have "r \<noteq> InstRef g" by (auto simp: avoids_def)
  with v have "v = InstRef g" "g \<noteq> t"
    by (auto simp: replace_value_def split: if_splits)
  with v(1) assms(1) g(1) show "j < n0" "InstRef g \<in> set (operands (inst_of p0 j))" "g \<notin> D \<union> {t}"
    by (auto simp: ir_inv_def)
next
  fix j x assume "j < n0" "read_variable_of p0 j = Some x"
  with assms(1) have "read_variable_of p j = Some x" by (simp add: ir_inv_def)
  then show "read_variable_of (ReplaceUsesWith t r p) j = Some x"
    by (simp add: read_variable_of_def ReplaceUsesWith_def variable_read_replace)
next
  fix b show "filter (\<lambda>i. i < n0) (instructions (block_of (ReplaceUsesWith t r p) b)) =
              filter (\<lambda>i. i < n0) (instructions (block_of p0 b))"
    using assms(1) by (simp add: ir_inv_def)
qed

lemma filter_takeWhile_dropWhile:
  "filter Q (takeWhile S l) @ filter Q (dropWhile S l) = filter Q l"
  by (induction l) auto

lemma filter_remove1_high: "\<not> Q x \<Longrightarrow> filter Q (remove1 x l) = filter Q l"
  by (induction l) auto

lemma ir_inv_InsertUndef:
  assumes "ir_inv G n0 p0 D p" "n0 \<le> ph"
  shows "ir_inv G n0 p0 D (snd (InsertUndef ph b op p))"
proof -
  from assms have n: "n0 \<le> num_insts p" by (simp add: ir_inv_def)
  have fl: "filter (\<lambda>i. i < n0) (instructions (block_of (snd (InsertUndef ph b op p)) b')) =
            filter (\<lambda>i. i < n0) (instructions (block_of p b'))" for b'
  proof (cases "b' = b")
    case False
    then show ?thesis by (simp add: InsertUndef_instructions)
  next
    case True
    let ?l = "remove1 ph (instructions (block_of p b))"
    have "filter (\<lambda>i. i < n0) (takeWhile (IsPhi p) ?l @ [num_insts p, ph] @ dropWhile (IsPhi p) ?l) =
          filter (\<lambda>i. i < n0) (takeWhile (IsPhi p) ?l) @ filter (\<lambda>i. i < n0) (dropWhile (IsPhi p) ?l)"
      using n assms(2) by simp
    also have "\<dots> = filter (\<lambda>i. i < n0) ?l"
      by (rule filter_takeWhile_dropWhile)
    also have "\<dots> = filter (\<lambda>i. i < n0) (instructions (block_of p b))"
      using assms(2) by (simp add: filter_remove1_high)
    finally show ?thesis using True by (simp only: InsertUndef_instructions simp_thms if_True)
  qed
  show ?thesis
    unfolding ir_inv_def
  proof (intro conjI allI impI ballI)
    show "n0 \<le> num_insts (snd (InsertUndef ph b op p))" using n by simp
  next
    fix j g assume "g \<in> G" "InstRef g \<in> set (operands (inst_of (snd (InsertUndef ph b op p)) j))"
    then have "InstRef g \<in> set (operands (inst_of p j))"
      by (auto simp: operands_def split: if_splits)
    with assms \<open>g \<in> G\<close> show "j < n0" "InstRef g \<in> set (operands (inst_of p0 j))" "g \<notin> D"
      by (auto simp: ir_inv_def)
  next
    fix j x assume "j < n0" "read_variable_of p0 j = Some x"
    with assms n show "read_variable_of (snd (InsertUndef ph b op p)) j = Some x"
      by (simp add: ir_inv_def read_variable_of_def)
  next
    fix b' show "filter (\<lambda>i. i < n0) (instructions (block_of (snd (InsertUndef ph b op p)) b')) =
                 filter (\<lambda>i. i < n0) (instructions (block_of p0 b'))"
      using fl assms by (simp add: ir_inv_def)
  qed
qed

lemma TryRemoveTrivialPhi_same_result:
  "TryRemoveTrivialPhi_same ph s ops = Some v \<Longrightarrow> v = s \<or> v \<in> set ops"
  by (induction ops arbitrary: s) (auto split: if_splits)

lemma Args_operands: "set (Args p i) \<subseteq> set (operands (inst_of p i))"
  by (auto simp: Args_def operands_def)

lemma ir_inv_high_operands:
  assumes "ir_inv G n0 p0 D p" "n0 \<le> j" "v \<in> set (operands (inst_of p j))"
  shows "avoids G v"
  unfolding avoids_def
proof
  fix g assume "g \<in> G"
  show "v \<noteq> InstRef g"
  proof
    assume "v = InstRef g"
    with assms(1,3) \<open>g \<in> G\<close> have "j < n0" by (auto simp: ir_inv_def)
    with assms(2) show False by simp
  qed
qed

lemma ir_inv_TryRemoveTrivialPhi:
  assumes "ir_inv G n0 p0 D p" "n0 \<le> ph" "low G n0"
  shows "ir_inv G n0 p0 D (snd (TryRemoveTrivialPhi ph b op p)) \<and>
         avoids G (fst (TryRemoveTrivialPhi ph b op p))"
proof (cases "TryRemoveTrivialPhi_same ph Empty (Args p ph)")
  case None
  with assms show ?thesis by (simp add: TryRemoveTrivialPhi_def avoids_high)
next
  case (Some same)
  show ?thesis
  proof (cases "same = Empty")
    case True
    let ?p3 = "snd (InsertUndef ph b op p)"
    from assms have n: "n0 \<le> num_insts p" by (simp add: ir_inv_def)
    then have a: "avoids G (InstRef (num_insts p))" using assms(3) by (simp add: avoids_high)
    have "ir_inv G n0 p0 (D \<union> {ph}) (ReplaceUsesWith ph (InstRef (num_insts p)) ?p3)"
      by (rule ir_inv_ReplaceUsesWith) (use assms a in \<open>simp_all add: ir_inv_InsertUndef\<close>)
    then have "ir_inv G n0 p0 D (ReplaceUsesWith ph (InstRef (num_insts p)) ?p3)"
      by (rule ir_inv_antimono) blast
    with Some True a show ?thesis
      by (simp add: TryRemoveTrivialPhi_def IsEmpty_def split_beta)
  next
    case False
    with Some have "same \<in> set (Args p ph)"
      by (auto dest: TryRemoveTrivialPhi_same_result)
    with Args_operands have "same \<in> set (operands (inst_of p ph))" by blast
    with assms(1,2) have a: "avoids G same" by (rule ir_inv_high_operands)
    have "ir_inv G n0 p0 (D \<union> {ph}) (ReplaceUsesWith ph same p)"
      using assms(1) a by (rule ir_inv_ReplaceUsesWith)
    then have "ir_inv G n0 p0 D (ReplaceUsesWith ph same p)"
      by (rule ir_inv_antimono) blast
    with Some False a show ?thesis
      by (simp add: TryRemoveTrivialPhi_def IsEmpty_def)
  qed
qed

lemma pass_inv_WriteVariable:
  "pass_inv G n0 p0 D st \<Longrightarrow> avoids G v \<Longrightarrow> pass_inv G n0 p0 D (WriteVariable x b v st)"
  by (auto simp: pass_inv_def)

lemma pass_inv_prog:
  "pass_inv G n0 p0 D st \<Longrightarrow> ir_inv G n0 p0 D' p \<Longrightarrow> pass_inv G n0 p0 D' (st\<lparr>prog := p\<rparr>)"
  by (simp add: pass_inv_def)

lemma pass_inv_new_phi:
  "pass_inv G n0 p0 D st \<Longrightarrow> pass_inv G n0 p0 D (new_phi b st)"
  by (simp add: pass_inv_def new_phi_def ir_inv_PrependNewInst)

lemma set_insert_or_assign: "set (insert_or_assign k v m) \<subseteq> insert (k, v) (set m)"
  by (induction m) (auto split: if_splits)

lemma pass_inv_incomplete:
  assumes "pass_inv G n0 p0 D st" "n0 \<le> ph"
  shows "pass_inv G n0 p0 D (st\<lparr>incomplete_phis := (incomplete_phis st)
           (b := insert_or_assign x ph (incomplete_phis st b))\<rparr>)"
  using assms set_insert_or_assign [of x ph "incomplete_phis st b"]
  by (auto simp: pass_inv_def)

lemma pass_inv_num: "pass_inv G n0 p0 D st \<Longrightarrow> n0 \<le> num_insts (prog st)"
  by (simp add: pass_inv_def ir_inv_def)

lemma frame_inv_simps [simp]:
  "frame_inv G n0 (new_ReadState b)"
  "frame_inv G n0 (fr\<lparr>pc := s\<rparr>) = frame_inv G n0 fr"
  "frame_inv G n0 (fr\<lparr>pred_it := qs\<rparr>) = frame_inv G n0 fr"
  "frame_inv G n0 (fr\<lparr>result := v\<rparr>) = (avoids G v \<and> (\<forall>ph. phi fr = Some ph \<longrightarrow> n0 \<le> ph))"
  "frame_inv G n0 (fr\<lparr>phi := Some n\<rparr>) = (avoids G (result fr) \<and> n0 \<le> n)"
  by (simp_all add: frame_inv_def new_ReadState_def)

lemma prepare_action_inv:
  assumes "pass_inv G n0 p0 D st" "frame_inv G n0 fr" "low G n0"
    and "prepare_action variable fr st = Some (a, st1)"
  shows "pass_inv G n0 p0 D st1 \<and> action_inv G n0 a"
proof (cases "pred_it fr")
  case (Cons q qs)
  with assms show ?thesis by (auto simp: prepare_action_def)
next
  case Nil
  with assms(4) obtain ph b where f: "phi fr = Some ph" "ReadState.block fr = Some b"
    by (auto simp: prepare_action_def split: option.splits)
  let ?t = "TryRemoveTrivialPhi ph b (UndefOpcode variable) (prog st)"
  from f assms(2) have "n0 \<le> ph" by (simp add: frame_inv_def)
  with assms(1,3) have t: "ir_inv G n0 p0 D (snd ?t)" "avoids G (fst ?t)"
    using ir_inv_TryRemoveTrivialPhi [of G n0 p0 D "prog st" ph b "UndefOpcode variable"]
    by (simp_all add: pass_inv_def)
  from assms(4) Nil f have a: "a = Pop (fst ?t)"
    "st1 = WriteVariable variable b (fst ?t) (st\<lparr>prog := snd ?t\<rparr>)"
    by (simp_all add: prepare_action_def)
  show ?thesis
    unfolding a using assms(1) t
    by (simp add: pass_inv_WriteVariable pass_inv_prog)
qed

lemma top_action_inv:
  assumes "pass_inv G n0 p0 D st" "frame_inv G n0 fr" "low G n0"
    and "top_action variable fr st = Some (a, st1)"
  shows "pass_inv G n0 p0 D st1 \<and> action_inv G n0 a"
proof -
  from assms(4) obtain b where b: "ReadState.block fr = Some b"
    by (auto simp: top_action_def split: option.splits)
  let ?n = "num_insts (prog st)"
  have n: "n0 \<le> ?n" using assms(1) by (rule pass_inv_num)
  then have an: "avoids G (InstRef ?n)" using assms(3) by (simp add: avoids_high)
  show ?thesis
  proof (cases "pc fr")
    case Start
    show ?thesis
    proof (cases "current_def st variable b")
      case (Some v)
      with assms(1) have "avoids G v" by (auto simp: pass_inv_def)
      with assms Some Start b show ?thesis
        by (auto simp: top_action_def pass_inv_WriteVariable)
    next
      case None
      show ?thesis
      proof (cases "b \<in> sealed_blocks st")
        case False
        have "pass_inv G n0 p0 D (WriteVariable variable b (InstRef ?n)
                ((new_phi b st)\<lparr>incomplete_phis := (incomplete_phis (new_phi b st))
                    (b := insert_or_assign variable ?n (incomplete_phis (new_phi b st) b))\<rparr>))"
          using assms(1) n an
          by (intro pass_inv_WriteVariable pass_inv_incomplete pass_inv_new_phi)
        with assms(4) None Start b False an show ?thesis
          by (auto simp: top_action_def)
      next
        case True
        show ?thesis
        proof (cases "length (ImmediatePredecessors (prog st) b) = 1")
          case one: True
          with assms None Start b True show ?thesis
            by (auto simp: top_action_def)
        next
          case many: False
          let ?st1 = "WriteVariable variable b (InstRef ?n) (new_phi b st)"
          let ?fr1 = "fr\<lparr>phi := Some ?n, pred_it := ImmediatePredecessors (prog st) b\<rparr>"
          have 1: "pass_inv G n0 p0 D ?st1"
            using assms(1) an by (intro pass_inv_WriteVariable pass_inv_new_phi)
          have 2: "frame_inv G n0 ?fr1"
            using assms(2) n by (simp add: frame_inv_def)
          from assms(4) None Start b True many
          have "prepare_action variable ?fr1 ?st1 = Some (a, st1)"
            by (simp add: top_action_def)
          from prepare_action_inv [OF 1 2 assms(3) this] show ?thesis .
        qed
      qed
    qed
  next
    case SetValue
    with assms b show ?thesis
      by (auto simp: top_action_def pass_inv_WriteVariable frame_inv_def)
  next
    case PreparePhiArgument
    with assms b show ?thesis
      by (auto simp: top_action_def dest: prepare_action_inv)
  next
    case PushPhiArgument
    with assms(4) b obtain ph q qs where f: "phi fr = Some ph" "pred_it fr = q # qs"
      by (auto simp: top_action_def split: option.splits list.splits)
    let ?st1 = "st\<lparr>prog := AddPhiOperand ph q (result fr) (prog st)\<rparr>"
    have "ir_inv G n0 p0 D (AddPhiOperand ph q (result fr) (prog st))"
      using assms(1,2) by (intro ir_inv_AddPhiOperand) (simp_all add: pass_inv_def frame_inv_def)
    with assms(1) have 1: "pass_inv G n0 p0 D ?st1" by (rule pass_inv_prog)
    have 2: "frame_inv G n0 (fr\<lparr>pred_it := qs\<rparr>)" using assms(2) by simp
    from assms(4) PushPhiArgument b f
    have "prepare_action variable (fr\<lparr>pred_it := qs\<rparr>) ?st1 = Some (a, st1)"
      by (simp add: top_action_def)
    from prepare_action_inv [OF 1 2 assms(3) this] show ?thesis .
  qed
qed

lemma apply_action_inv:
  assumes "action_inv G n0 a" "\<forall>f\<in>set rest. frame_inv G n0 f"
  shows "\<forall>f\<in>set (apply_action a rest). frame_inv G n0 f"
  using assms by (cases a; cases rest) (auto simp: apply_action_def frame_inv_def)

lemma loop_inv:
  assumes "ReadVariable_loop variable c = Some y" and "low G n0"
  shows "pass_inv G n0 p0 D (snd c) \<and> (\<forall>f\<in>set (fst c). frame_inv G n0 f) \<longrightarrow>
         pass_inv G n0 p0 D (snd y) \<and> avoids G (fst y)"
proof (rule ReadVariable_loop.raw_induct
    [where P = "\<lambda>variable c y. pass_inv G n0 p0 D (snd c) \<and> (\<forall>f\<in>set (fst c). frame_inv G n0 f) \<longrightarrow>
         pass_inv G n0 p0 D (snd y) \<and> avoids G (fst y)", OF _ assms(1)], goal_cases)
  case (1 loop variable c y)
  obtain stack st where c: "c = (stack, st)" by (cases c)
  show ?case
  proof
    assume "pass_inv G n0 p0 D (snd c) \<and> (\<forall>f\<in>set (fst c). frame_inv G n0 f)"
    with c have inv: "pass_inv G n0 p0 D st" "\<forall>f\<in>set stack. frame_inv G n0 f" by simp_all
    show "pass_inv G n0 p0 D (snd y) \<and> avoids G (fst y)"
    proof (cases stack)
      case Nil
      with 1(2) c show ?thesis by (simp add: ReadVariable_step_def)
    next
      case (Cons fr rest)
      with 1(2) c obtain a st1 where a: "top_action variable fr st = Some (a, st1)"
        by (auto simp: step_action split: option.splits)
      from inv Cons have fi: "frame_inv G n0 fr" "\<forall>f\<in>set rest. frame_inv G n0 f" by simp_all
      from top_action_inv [OF inv(1) fi(1) assms(2) a]
      have t: "pass_inv G n0 p0 D st1" "action_inv G n0 a" by simp_all
      from t(1) apply_action_inv [OF t(2) fi(2)]
      have i1: "pass_inv G n0 p0 D st1" "\<forall>f\<in>set (apply_action a rest). frame_inv G n0 f"
        by simp_all
      show ?thesis
      proof (cases "1 < length (apply_action a rest)")
        case True
        with 1(2) c Cons a have "loop variable (apply_action a rest, st1) = Some y"
          by (simp add: step_action)
        from 1(1) [OF this] i1 show ?thesis by simp
      next
        case False
        with 1(2) c Cons a obtain f where "apply_action a rest = [f]" "y = (result f, st1)"
          by (auto simp: step_action split: list.splits)
        with i1 show ?thesis by (simp add: frame_inv_def)
      qed
    qed
  qed
qed

lemma ReadVariable_inv:
  assumes "ReadVariable variable b st = Some (v, st')" "low G n0" "pass_inv G n0 p0 D st"
  shows "pass_inv G n0 p0 D st' \<and> avoids G v"
  using loop_inv [OF assms(1) [unfolded ReadVariable_def] assms(2), of p0 D] assms(3)
  by simp

lemma AddPhiOperands_loop_inv:
  assumes "low G n0"
  shows "AddPhiOperands_loop variable ph qs st = Some st' \<Longrightarrow> pass_inv G n0 p0 D st \<Longrightarrow>
         pass_inv G n0 p0 D st'"
proof (induction qs arbitrary: st)
  case Nil
  then show ?case by simp
next
  case (Cons q qs)
  from Cons.prems(1) obtain v st1 where r: "ReadVariable variable q st = Some (v, st1)"
    and l: "AddPhiOperands_loop variable ph qs (st1\<lparr>prog := AddPhiOperand ph q v (prog st1)\<rparr>) = Some st'"
    by (auto split: option.splits)
  from ReadVariable_inv [OF r assms Cons.prems(2)]
  have i: "pass_inv G n0 p0 D st1" "avoids G v" by simp_all
  then have "ir_inv G n0 p0 D (AddPhiOperand ph q v (prog st1))"
    by (intro ir_inv_AddPhiOperand) (simp_all add: pass_inv_def)
  with i(1) have "pass_inv G n0 p0 D (st1\<lparr>prog := AddPhiOperand ph q v (prog st1)\<rparr>)"
    by (rule pass_inv_prog)
  with Cons.IH [OF l] show ?case .
qed

lemma AddPhiOperands_inv:
  assumes "AddPhiOperands variable ph b st = Some (v, st')" "low G n0" "n0 \<le> ph"
    "pass_inv G n0 p0 D st"
  shows "pass_inv G n0 p0 D st'"
proof -
  from assms(1) obtain st1 where
    l: "AddPhiOperands_loop variable ph (ImmediatePredecessors (prog st) b) st = Some st1"
    and st': "st' = st1\<lparr>prog := snd (TryRemoveTrivialPhi ph b (UndefOpcode variable) (prog st1))\<rparr>"
    by (auto simp: AddPhiOperands_def split_beta split: option.splits)
  from AddPhiOperands_loop_inv [OF assms(2) l assms(4)] have i: "pass_inv G n0 p0 D st1" .
  then have "ir_inv G n0 p0 D (snd (TryRemoveTrivialPhi ph b (UndefOpcode variable) (prog st1)))"
    using ir_inv_TryRemoveTrivialPhi [of G n0 p0 D "prog st1" ph b "UndefOpcode variable"] assms(2,3)
    by (simp add: pass_inv_def)
  with i show ?thesis unfolding st' by (rule pass_inv_prog)
qed

lemma SealBlock_loop_inv:
  assumes "low G n0"
  shows "SealBlock_loop b m st = Some st' \<Longrightarrow> \<forall>e\<in>set m. n0 \<le> snd e \<Longrightarrow>
         pass_inv G n0 p0 D st \<Longrightarrow> pass_inv G n0 p0 D st'"
proof (induction m arbitrary: st)
  case Nil
  then show ?case by simp
next
  case (Cons e m)
  obtain variant ph where e: "e = (variant, ph)" by (cases e)
  with Cons.prems(1) obtain v st1 where a: "AddPhiOperands variant ph b st = Some (v, st1)"
    and l: "SealBlock_loop b m st1 = Some st'"
    by (auto split: option.splits)
  from Cons.prems(2) e have "n0 \<le> ph" by simp
  from AddPhiOperands_inv [OF a assms this Cons.prems(3)] have "pass_inv G n0 p0 D st1" .
  with Cons.IH [OF l] Cons.prems(2) show ?case by simp
qed

lemma SealBlock_inv:
  assumes "SealBlock b st = Some st'" "low G n0" "pass_inv G n0 p0 D st"
  shows "pass_inv G n0 p0 D st'"
proof -
  from assms(1) obtain st1 where l: "SealBlock_loop b (incomplete_phis st b) st = Some st1"
    and st': "st' = st1\<lparr>sealed_blocks := insert b (sealed_blocks st1)\<rparr>"
    by (auto simp: SealBlock_def split: option.splits)
  from assms(3) have "\<forall>e\<in>set (incomplete_phis st b). n0 \<le> snd e"
    by (auto simp: pass_inv_def)
  from SealBlock_loop_inv [OF assms(2) l this assms(3)] show ?thesis
    unfolding st' by (simp add: pass_inv_def)
qed

lemma read_replace_inv:
  assumes "read_replace variable b j st = Some (Inr st')" "low G n0" "pass_inv G n0 p0 D st"
  shows "pass_inv G n0 p0 (D \<union> {j}) st'"
proof -
  from assms(1) obtain v st1 where r: "ReadVariable variable b st = Some (v, st1)"
    and st': "st' = st1\<lparr>prog := ReplaceUsesWith j v (prog st1)\<rparr>"
    by (auto simp: read_replace_def split: option.splits)
  from ReadVariable_inv [OF r assms(2,3)] have i: "pass_inv G n0 p0 D st1" "avoids G v" by simp_all
  then have "ir_inv G n0 p0 (D \<union> {j}) (ReplaceUsesWith j v (prog st1))"
    by (intro ir_inv_ReplaceUsesWith) (simp_all add: pass_inv_def)
  with i(1) show ?thesis unfolding st' by (rule pass_inv_prog)
qed

lemma pass_inv_antimono: "pass_inv G n0 p0 D st \<Longrightarrow> D' \<subseteq> D \<Longrightarrow> pass_inv G n0 p0 D' st"
  by (auto simp: pass_inv_def intro: ir_inv_antimono)

lemma write_arg_inv:
  assumes "write_arg variable b j k st = Some (Inr st')" "pass_inv G n0 p0 D st"
    "\<forall>v\<in>set (operands (inst_of (prog st) j)). avoids G v"
  shows "pass_inv G n0 p0 D st'"
proof -
  from assms(1) obtain v where v: "Arg (prog st) j k = Inr v" "st' = WriteVariable variable b v st"
    by (auto simp: write_arg_def split: sum.splits)
  then have "v \<in> set (Args (prog st) j)"
    by (auto simp: Arg_def split: if_splits)
  with Args_operands assms(3) have "avoids G v" by blast
  with assms(2) v(2) show ?thesis by (simp add: pass_inv_WriteVariable)
qed

lemma VisitInst_inv:
  assumes "VisitInst b j st = Some (Inr st')" "low G n0" "pass_inv G n0 p0 D st"
    "\<forall>v\<in>set (operands (inst_of (prog st) j)). avoids G v"
  shows "pass_inv G n0 p0 D st'"
proof -
  have w: "pass_inv G n0 p0 D st'" if "write_arg variable b j k st = Some (Inr st')" for variable k
    using that assms(3,4) by (rule write_arg_inv)
  have r: "pass_inv G n0 p0 D st'" if "read_replace variable b j st = Some (Inr st')" for variable
    using read_replace_inv [OF that assms(2,3)] by (rule pass_inv_antimono) blast
  from assms(1,3) show ?thesis
    by (cases "opcode (inst_of (prog st) j)")
       (auto simp: VisitInst_def split: sum.splits if_splits intro: w r)
qed

lemma VisitInst_read:
  "read_variable_of (prog st) j = Some x \<Longrightarrow> VisitInst b j st = read_replace x b j st"
  by (cases "opcode (inst_of (prog st) j)"; cases "args (inst_of (prog st) j)")
     (auto simp: read_variable_of_def variable_read_def VisitInst_def arg0_def Arg_def Args_def
        split: sum.splits if_splits)

lemma VisitBlock_loop_inv:
  assumes "low G n0" "\<forall>g\<in>G. read_variable_of p0 g \<noteq> None"
    and ord: "\<And>k g. k < length vs \<Longrightarrow> g \<in> G \<Longrightarrow>
                InstRef g \<in> set (operands (inst_of p0 (vs ! k))) \<Longrightarrow> g \<in> set (take k vs)"
  shows "VisitBlock_loop b insts st = Some (Inr st') \<Longrightarrow> pass_inv G n0 p0 D st \<Longrightarrow>
         G \<inter> set pre \<subseteq> D \<Longrightarrow> vs = pre @ filter (\<lambda>i. i < n0) insts @ post \<Longrightarrow>
         pass_inv G n0 p0 (D \<union> (G \<inter> set insts)) st'"
proof (induction insts arbitrary: st D pre)
  case Nil
  then show ?case by simp
next
  case (Cons j insts)
  from Cons.prems(1) obtain st1 where v: "VisitInst b j st = Some (Inr st1)"
    and l: "VisitBlock_loop b insts st1 = Some (Inr st')"
    by (auto split: option.splits sum.splits)
  have ir: "ir_inv G n0 p0 D (prog st)" using Cons.prems(2) by (simp add: pass_inv_def)
  have ops: "\<forall>v\<in>set (operands (inst_of (prog st) j)). avoids G v"
    unfolding avoids_def
  proof (intro ballI notI)
    fix v g assume a: "v \<in> set (operands (inst_of (prog st) j))" "g \<in> G" "v = InstRef g"
    with ir have j: "j < n0" "InstRef g \<in> set (operands (inst_of p0 j))" "g \<notin> D"
      unfolding ir_inv_def by blast+
    from j(1) Cons.prems(4) have k: "vs ! length pre = j" "length pre < length vs"
      "take (length pre) vs = pre"
      by simp_all
    from ord [OF k(2) a(2)] j(2) k(1,3) have "g \<in> set pre" by simp
    with Cons.prems(3) a(2) j(3) show False by blast
  qed
  define D1 where "D1 = D \<union> ({j} \<inter> G)"
  define pre1 where "pre1 = (if j < n0 then pre @ [j] else pre)"
  have i1: "pass_inv G n0 p0 D1 st1"
  proof (cases "j \<in> G")
    case True
    with assms(1,2) obtain x where "j < n0" "read_variable_of p0 j = Some x"
      by (auto simp: low_def)
    with ir have "read_variable_of (prog st) j = Some x" unfolding ir_inv_def by blast
    from VisitInst_read [OF this, of b] v have "read_replace x b j st = Some (Inr st1)" by simp
    from read_replace_inv [OF this assms(1) Cons.prems(2)] True show ?thesis
      by (simp add: D1_def)
  next
    case False
    with VisitInst_inv [OF v assms(1) Cons.prems(2) ops] show ?thesis by (simp add: D1_def)
  qed
  have "G \<inter> set pre1 \<subseteq> D1" using Cons.prems(3) by (auto simp: pre1_def D1_def)
  moreover have "vs = pre1 @ filter (\<lambda>i. i < n0) insts @ post"
    using Cons.prems(4) by (simp add: pre1_def)
  ultimately have "pass_inv G n0 p0 (D1 \<union> (G \<inter> set insts)) st'"
    using Cons.IH [OF l i1] by blast
  moreover have "D1 \<union> (G \<inter> set insts) = D \<union> (G \<inter> set (j # insts))"
    by (auto simp: D1_def)
  ultimately show ?case by simp
qed

lemma VisitBlock_inv:
  assumes "low G n0" "\<forall>g\<in>G. read_variable_of p0 g \<noteq> None"
    and ord: "\<And>k g. k < length vs \<Longrightarrow> g \<in> G \<Longrightarrow>
                InstRef g \<in> set (operands (inst_of p0 (vs ! k))) \<Longrightarrow> g \<in> set (take k vs)"
    and "VisitBlock b st = Some (Inr st')" "pass_inv G n0 p0 D st" "G \<inter> set pre \<subseteq> D"
    and "vs = pre @ instructions (block_of p0 b) @ post"
    and "\<forall>i\<in>set (instructions (block_of p0 b)). i < n0"
  shows "pass_inv G n0 p0 (D \<union> (G \<inter> set (instructions (block_of p0 b)))) st'"
proof -
  let ?insts = "instructions (block_of (prog st) b)"
  from assms(4) obtain st1 where l: "VisitBlock_loop b ?insts st = Some (Inr st1)"
    and s: "SealBlock b st1 = Some st'"
    by (auto simp: VisitBlock_def split: option.splits sum.splits)
  from assms(5) have "filter (\<lambda>i. i < n0) ?insts =
      filter (\<lambda>i. i < n0) (instructions (block_of p0 b))"
    by (simp add: pass_inv_def ir_inv_def)
  also have "\<dots> = instructions (block_of p0 b)" using assms(8) by simp
  finally have f: "filter (\<lambda>i. i < n0) ?insts = instructions (block_of p0 b)" .
  with assms(7) have vs: "vs = pre @ filter (\<lambda>i. i < n0) ?insts @ post" by simp
  have "G \<inter> set ?insts = G \<inter> set (filter (\<lambda>i. i < n0) ?insts)"
    using assms(1) by (auto simp: low_def)
  with f have g: "G \<inter> set ?insts = G \<inter> set (instructions (block_of p0 b))" by simp
  from VisitBlock_loop_inv [of G n0 p0 vs, OF assms(1,2) ord l assms(5,6) vs]
  have "pass_inv G n0 p0 (D \<union> (G \<inter> set ?insts)) st1" by blast
  with g have "pass_inv G n0 p0 (D \<union> (G \<inter> set (instructions (block_of p0 b)))) st1" by simp
  with SealBlock_inv [OF s assms(1)] show ?thesis .
qed

lemma SsaRewritePass_loop_inv:
  assumes "low G n0" "\<forall>g\<in>G. read_variable_of p0 g \<noteq> None"
    and ord: "\<And>k g. k < length vs \<Longrightarrow> g \<in> G \<Longrightarrow>
                InstRef g \<in> set (operands (inst_of p0 (vs ! k))) \<Longrightarrow> g \<in> set (take k vs)"
    and "\<forall>i\<in>set vs. i < n0"
  shows "SsaRewritePass_loop bs st = Some (Inr st') \<Longrightarrow> pass_inv G n0 p0 D st \<Longrightarrow>
         G \<inter> set pre \<subseteq> D \<Longrightarrow>
         vs = pre @ concat (map (\<lambda>b. instructions (block_of p0 b)) bs) \<Longrightarrow>
         pass_inv G n0 p0 (D \<union> (G \<inter> set (concat (map (\<lambda>b. instructions (block_of p0 b)) bs)))) st'"
proof (induction bs arbitrary: st D pre)
  case Nil
  then show ?case by simp
next
  case (Cons b bs)
  let ?l = "instructions (block_of p0 b)"
  let ?r = "concat (map (\<lambda>b. instructions (block_of p0 b)) bs)"
  from Cons.prems(1) obtain st1 where v: "VisitBlock b st = Some (Inr st1)"
    and l: "SsaRewritePass_loop bs st1 = Some (Inr st')"
    by (auto split: option.splits sum.splits)
  from Cons.prems(4) have vs: "vs = pre @ ?l @ ?r" by simp
  with assms(4) have lo: "\<forall>i\<in>set ?l. i < n0" by simp
  from VisitBlock_inv [of G n0 p0 vs, OF assms(1,2) ord v Cons.prems(2,3) vs lo]
  have i1: "pass_inv G n0 p0 (D \<union> (G \<inter> set ?l)) st1" by blast
  have "G \<inter> set (pre @ ?l) \<subseteq> D \<union> (G \<inter> set ?l)" using Cons.prems(3) by auto
  moreover have "vs = (pre @ ?l) @ ?r" using vs by simp
  ultimately have "pass_inv G n0 p0 ((D \<union> (G \<inter> set ?l)) \<union> (G \<inter> set ?r)) st'"
    by (rule Cons.IH [OF l i1])
  moreover have "(D \<union> (G \<inter> set ?l)) \<union> (G \<inter> set ?r) =
      D \<union> (G \<inter> set (concat (map (\<lambda>b. instructions (block_of p0 b)) (b # bs))))"
    by auto
  ultimately show ?case by simp
qed

lemma pass_inv_new_Pass:
  assumes "\<forall>j. \<forall>g\<in>G. InstRef g \<in> set (operands (inst_of p0 j)) \<longrightarrow> j < num_insts p0"
  shows "pass_inv G (num_insts p0) p0 {} (new_Pass p0)"
  using assms by (simp add: pass_inv_def ir_inv_def new_Pass_def)

lemma diamond_program_returns: "\<exists>program'. SsaRewritePass diamond_program = Some (Inr program')"
proof -
  have r: "ranked {0, 2, 3, 4} (\<lambda>b. b) (ImmediatePredecessors (code diamond_program))"
    by (simp add: ranked_def diamond_program_def ImmediatePredecessors_def mk_ir_def mk_block_def)
  have "\<exists>st'. SsaRewritePass_loop (rev (post_order_blocks diamond_program))
                 (new_Pass (code diamond_program)) = Some (Inr st') \<and>
               extends (new_Pass (code diamond_program)) st'"
  proof (rule SsaRewritePass_loop_returns [OF r])
    show "set (rev (post_order_blocks diamond_program)) \<subseteq> {0, 2, 3, 4}"
      by (simp add: diamond_program_def)
    show "ImmediatePredecessors (prog (new_Pass (code diamond_program))) =
          ImmediatePredecessors (code diamond_program)"
      by (simp add: new_Pass_def)
    show "well_formed (prog (new_Pass (code diamond_program)))"
      by (simp add: new_Pass_def diamond_program_def well_formed_mk_ir well_formed_inst_def
            mk_inst_def)
  qed
  then show ?thesis by (auto simp: SsaRewritePass_def)
qed

text \<open>C5, as the code has it. When the pass returns a program, no read of a variable
  (a \<^verbatim>\<open>Get*\<close> instruction of a visited block, other than a read of RZ or PT) has a use
  left in that program, provided the instructions of the visited blocks are instructions
  of the pool and every instruction that uses such a read is visited by the pass, and only
  after the read.\<close>

theorem SsaRewritePass_replaces_reads:
  assumes "SsaRewritePass program = Some (Inr program')"
    and "\<forall>i\<in>set (visit_order program). i < num_insts (code program)"
    and "\<forall>j. \<forall>g\<in>variable_reads program.
           InstRef g \<in> set (operands (inst_of (code program) j)) \<longrightarrow>
           j \<in> set (visit_order program) \<and>
           (\<forall>k<length (visit_order program). visit_order program ! k = j \<longrightarrow>
              g \<in> set (take k (visit_order program)))"
  shows "\<forall>g\<in>variable_reads program. \<not> HasUses (code program') g"
proof
  fix g assume g: "g \<in> variable_reads program"
  let ?G = "variable_reads program" and ?p0 = "code program" and ?vs = "visit_order program"
  let ?n0 = "num_insts ?p0"
  from assms(1) obtain st' where
    l: "SsaRewritePass_loop (rev (post_order_blocks program)) (new_Pass ?p0) = Some (Inr st')"
    and p': "program' = program\<lparr>code := prog st'\<rparr>"
    by (auto simp: SsaRewritePass_def split: option.splits sum.splits)
  have lo: "low ?G ?n0" using assms(2) by (auto simp: low_def variable_reads_def)
  have rd: "\<forall>g\<in>?G. read_variable_of ?p0 g \<noteq> None" by (simp add: variable_reads_def)
  have ord: "g \<in> set (take k ?vs)"
    if "k < length ?vs" "g \<in> ?G" "InstRef g \<in> set (operands (inst_of ?p0 (?vs ! k)))" for k g
    using assms(3) that by blast
  have "\<forall>j. \<forall>g\<in>?G. InstRef g \<in> set (operands (inst_of ?p0 j)) \<longrightarrow> j < ?n0"
    using assms(2,3) by blast
  then have i0: "pass_inv ?G ?n0 ?p0 {} (new_Pass ?p0)" by (rule pass_inv_new_Pass)
  have vs: "?vs = [] @ concat (map (\<lambda>b. instructions (block_of ?p0 b)) (rev (post_order_blocks program)))"
    by (simp add: visit_order_def)
  from SsaRewritePass_loop_inv [of ?G ?n0 ?p0 ?vs, OF lo rd ord assms(2) l i0 _ vs]
  have "pass_inv ?G ?n0 ?p0 ({} \<union> (?G \<inter> set ?vs)) st'"
    by (simp add: visit_order_def)
  moreover have "{} \<union> (?G \<inter> set ?vs) = ?G" by (auto simp: variable_reads_def)
  ultimately have "ir_inv ?G ?n0 ?p0 ?G (prog st')" by (simp add: pass_inv_def)
  with g have "InstRef g \<notin> set (operands (inst_of (prog st') j))" for j
    unfolding ir_inv_def by blast
  then show "\<not> HasUses (code program') g" by (simp add: HasUses_def p')
qed

text \<open>The diamond: the read \<^verbatim>\<open>%5 = GetRegister R1\<close> of block 4, used by instruction 6, has
  no use after the pass.\<close>

theorem SsaRewritePass_replaces_reads_witness:
  "\<exists>program'. SsaRewritePass diamond_program = Some (Inr program') \<and>
     variable_reads diamond_program = {5} \<and> \<not> HasUses (code program') 5"
proof -
  from diamond_program_returns obtain program' where
    r: "SsaRewritePass diamond_program = Some (Inr program')" by blast
  have vs: "visit_order diamond_program = [0, 1, 2, 3, 4, 5, 6, 7]"
    by (simp add: visit_order_def diamond_program_def mk_ir_def mk_block_def)
  have "read_variable_of (code diamond_program) g \<noteq> None \<longleftrightarrow> g = 5"
    if "g \<in> set [0, 1, 2, 3, 4, 5, 6, 7]" for g
    using that
    by (auto simp: read_variable_of_def variable_read_def diamond_program_def mk_ir_def mk_inst_def)
  then have "{g \<in> set [0, 1, 2, 3, 4, 5, 6, 7]. read_variable_of (code diamond_program) g \<noteq> None} =
             {g \<in> set [0, 1, 2, 3, 4, 5, 6, 7]. g = 5}"
    by blast
  also have "\<dots> = {5}" by auto
  finally have G: "variable_reads diamond_program = {5}" unfolding variable_reads_def vs .
  have u: "j = 6" if "InstRef 5 \<in> set (operands (inst_of (code diamond_program) j))" for j
    using that
    by (simp add: diamond_program_def mk_ir_def mk_inst_def operands_def nth_Cons'
          split: if_splits)
  have o: "6 \<in> set (visit_order diamond_program) \<and>
           (\<forall>k<length (visit_order diamond_program). visit_order diamond_program ! k = 6 \<longrightarrow>
              5 \<in> set (take k (visit_order diamond_program)))"
    unfolding vs by (simp add: nth_Cons' take_Cons' less_Suc_eq)
  have "\<forall>g\<in>variable_reads diamond_program. \<not> HasUses (code program') g"
  proof (rule SsaRewritePass_replaces_reads [OF r])
    show "\<forall>i\<in>set (visit_order diamond_program). i < num_insts (code diamond_program)"
      unfolding vs by (simp add: diamond_program_def mk_ir_def)
    show "\<forall>j. \<forall>g\<in>variable_reads diamond_program.
           InstRef g \<in> set (operands (inst_of (code diamond_program) j)) \<longrightarrow>
           j \<in> set (visit_order diamond_program) \<and>
           (\<forall>k<length (visit_order diamond_program). visit_order diamond_program ! k = j \<longrightarrow>
              g \<in> set (take k (visit_order diamond_program)))"
    proof (intro allI ballI impI)
      fix j g assume "g \<in> variable_reads diamond_program"
        "InstRef g \<in> set (operands (inst_of (code diamond_program) j))"
      with G u have j: "g = 5" "j = 6" by auto
      show "j \<in> set (visit_order diamond_program) \<and>
           (\<forall>k<length (visit_order diamond_program). visit_order diamond_program ! k = j \<longrightarrow>
              g \<in> set (take k (visit_order diamond_program)))"
        unfolding j by (rule o)
    qed
  qed
  with G r show ?thesis by auto
qed

text \<open>C5 as the specification states it fails on a read of RZ: the pass returns the
  one-block program unchanged, and \<^verbatim>\<open>%0 = GetRegister RZ\<close>, an instruction of the visited
  block 0, still has its use.\<close>

theorem SsaRewritePass_keeps_RZ_read:
  "SsaRewritePass sink_program = Some (Inr sink_program) \<and>
   0 \<in> set (post_order_blocks sink_program) \<and>
   0 \<in> set (instructions (block_of (code sink_program) 0)) \<and>
   opcode (inst_of (code sink_program) 0) = GetRegister \<and>
   HasUses (code sink_program) 0"
proof (intro conjI)
  show "SsaRewritePass sink_program = Some (Inr sink_program)"
    by (simp add: SsaRewritePass_def sink_program_def sink_ir_def mk_ir_def mk_inst_def
          mk_block_def new_Pass_def VisitBlock_def VisitInst_def write_arg_def arg0_def Arg_def
          Args_def IsPhi_def SealBlock_def WriteVariable_def)
  show "0 \<in> set (post_order_blocks sink_program)" by (simp add: sink_program_def)
  show "0 \<in> set (instructions (block_of (code sink_program) 0))"
    by (simp add: sink_program_def sink_ir_def mk_ir_def mk_block_def)
  show "opcode (inst_of (code sink_program) 0) = GetRegister"
    by (simp add: sink_program_def sink_ir_def mk_ir_def mk_inst_def)
  have "InstRef 0 \<in> set (operands (inst_of (code sink_program) (Suc 0)))"
    by (simp add: sink_program_def sink_ir_def mk_ir_def mk_inst_def operands_def)
  then show "HasUses (code sink_program) 0"
    unfolding HasUses_def
    by (intro exI [of _ "Suc 0"]) (simp add: sink_program_def sink_ir_def mk_ir_def)
qed

section \<open>Reads through one predecessor and reads without a definition\<close>

lemma ReadVariable_through_predecessor:
  assumes "current_def st variable b = None"
    and "b \<in> sealed_blocks st"
    and "ImmediatePredecessors (prog st) b = [p]"
    and "ReadVariable variable p st = Some (v, st')"
  shows "ReadVariable variable b st = Some (v, WriteVariable variable b v st')"
proof -
  let ?fb = "(new_ReadState (Some b))\<lparr>pc := SetValue\<rparr>"
  have 1: "ReadVariable variable b st =
           ReadVariable_loop variable ([new_ReadState (Some p)] @ ?fb # [new_ReadState None], st)"
    using assms(1-3)
    by (simp add: ReadVariable_def loop_action top_action_def new_ReadState_def apply_action_def)
  have "ReadVariable_loop variable ([new_ReadState (Some p)] @ [new_ReadState None], st) = Some (v, st')"
    using assms(4) by (simp add: ReadVariable_def)
  from loop_lift [OF this, rule_format, of "[new_ReadState (Some p)]" "new_ReadState None" st ?fb "[new_ReadState None]"]
  have 2: "ReadVariable_loop variable ([new_ReadState (Some p)] @ ?fb # [new_ReadState None], st) =
           ReadVariable_loop variable ([?fb\<lparr>result := v\<rparr>, new_ReadState None], st')"
    by simp
  have 3: "ReadVariable_loop variable ([?fb\<lparr>result := v\<rparr>, new_ReadState None], st') =
           Some (v, WriteVariable variable b v st')"
    by (simp add: loop_action top_action_def new_ReadState_def apply_action_def)
  show ?thesis
    using 1 2 3 by simp
qed

text \<open>C3, as the code has it. In a sealed block \<open>b\<close> without a definition of the variable
  and with exactly one immediate predecessor \<open>p\<close>, when the blocks \<open>B\<close> that \<open>b\<close> belongs to
  are finite, closed under immediate predecessors and ranked so that a block with exactly
  one immediate predecessor has a greater rank than that predecessor: the read of \<open>p\<close>
  returns, and \<^verbatim>\<open>ReadVariable\<close> returns for \<open>b\<close> the value it returns for \<open>p\<close>; the state it
  leaves is the one the read of \<open>p\<close> leaves, with that value recorded as the definition in
  \<open>b\<close>: the program is the same, so no phi has been created for \<open>b\<close>.\<close>

theorem ReadVariable_single_predecessor_ranked:
  assumes "current_def st variable b = None"
    and "b \<in> sealed_blocks st"
    and "ImmediatePredecessors (prog st) b = [p]"
    and "finite B" and "b \<in> B"
    and "\<forall>c\<in>B. set (ImmediatePredecessors (prog st) c) \<subseteq> B"
    and "\<forall>c\<in>B. \<forall>q. ImmediatePredecessors (prog st) c = [q] \<longrightarrow> rk q < (rk c :: nat)"
  shows "\<exists>v st'. ReadVariable variable p st = Some (v, st') \<and>
           ReadVariable variable b st = Some (v, WriteVariable variable b v st') \<and>
           prog (WriteVariable variable b v st') = prog st' \<and>
           current_def (WriteVariable variable b v st') variable b = Some v"
proof -
  have r: "ranked B rk (ImmediatePredecessors (prog st))"
    using assms(4,6,7) by (simp add: ranked_def)
  from assms(3,5,6) have "p \<in> B" by fastforce
  from ReadVariable_returns [OF r this refl]
  obtain v st' where p: "ReadVariable variable p st = Some (v, st')" by blast
  from ReadVariable_through_predecessor [OF assms(1-3) p] p show ?thesis
    by (auto simp: WriteVariable_def)
qed

text \<open>In \<open>chain_pass\<close>, with block 2 ranked below block 0: the read of R3 in block 0
  returns the definition 5 of block 2 and records it for block 0.\<close>

theorem ReadVariable_single_predecessor_ranked_witness:
  "ReadVariable (VReg (R 3)) 2 chain_pass =
     Some (ImmU32 5, WriteVariable (VReg (R 3)) 2 (ImmU32 5) chain_pass) \<and>
   ReadVariable (VReg (R 3)) 0 chain_pass =
     Some (ImmU32 5, WriteVariable (VReg (R 3)) 0 (ImmU32 5) (WriteVariable (VReg (R 3)) 2 (ImmU32 5) chain_pass)) \<and>
   prog (WriteVariable (VReg (R 3)) 0 (ImmU32 5) (WriteVariable (VReg (R 3)) 2 (ImmU32 5) chain_pass)) =
     prog chain_pass"
proof -
  have 1: "current_def chain_pass (VReg (R 3)) 0 = None" "0 \<in> sealed_blocks chain_pass"
    "ImmediatePredecessors (prog chain_pass) 0 = [2]"
    by (simp_all add: chain_pass_def ImmediatePredecessors_def mk_ir_def mk_block_def)
  have 2: "ReadVariable (VReg (R 3)) 2 chain_pass =
             Some (ImmU32 5, WriteVariable (VReg (R 3)) 2 (ImmU32 5) chain_pass)"
    by (simp add: ReadVariable_def loop_action top_action_def new_ReadState_def apply_action_def
          chain_pass_def)
  have 3: "\<forall>c\<in>{0, 2}. set (ImmediatePredecessors (prog chain_pass) c) \<subseteq> {0, 2}"
    by (simp add: chain_pass_def ImmediatePredecessors_def mk_ir_def mk_block_def)
  have 4: "\<forall>c\<in>{0, 2}. \<forall>q. ImmediatePredecessors (prog chain_pass) c = [q] \<longrightarrow> 2 - q < 2 - c"
    by (simp add: chain_pass_def ImmediatePredecessors_def mk_ir_def mk_block_def)
  from ReadVariable_single_predecessor_ranked [where B = "{0, 2}" and rk = "\<lambda>c. 2 - c", OF 1 _ _ 3 4] 2
  show ?thesis by (auto simp: WriteVariable_def)
qed

text \<open>C3 as stated fails: in \<open>self_loop_pass\<close> the sealed block 0 has no definition of R3
  and exactly one immediate predecessor, itself, and the read of R3 in block 0 does not
  return.\<close>

theorem ReadVariable_single_predecessor_diverges:
  "current_def self_loop_pass (VReg (R 3)) 0 = None \<and> 0 \<in> sealed_blocks self_loop_pass \<and>
   ImmediatePredecessors (prog self_loop_pass) 0 = [0] \<and>
   ReadVariable (VReg (R 3)) 0 self_loop_pass = None"
proof -
  have 1: "current_def self_loop_pass (VReg (R 3)) 0 = None" "0 \<in> sealed_blocks self_loop_pass"
    "ImmediatePredecessors (prog self_loop_pass) 0 = [0]"
    by (simp_all add: self_loop_pass_def ImmediatePredecessors_def mk_ir_def mk_block_def)
  from ReadVariable_self_loop [OF 1] 1 show ?thesis by simp
qed

lemma TryRemoveTrivialPhi_undef:
  assumes "set (Args p ph) \<subseteq> {InstRef ph}"
  shows "TryRemoveTrivialPhi ph b opc p =
           (InstRef (num_insts p),
            ReplaceUsesWith ph (InstRef (num_insts p)) (snd (InsertUndef ph b opc p)))"
proof -
  from assms have "Empty \<notin> set (Args p ph)" "set (Args p ph) - {InstRef ph} = {}" by auto
  then have "TryRemoveTrivialPhi_same ph Empty (Args p ph) = Some Empty" by (rule same_none)
  then show ?thesis by (simp add: TryRemoveTrivialPhi_def IsEmpty_def split_beta)
qed

lemma TryRemoveTrivialPhi_undef_facts:
  assumes "set (Args p ph) \<subseteq> {InstRef ph}"
  shows "fst (TryRemoveTrivialPhi ph b opc p) = InstRef (num_insts p)"
    and "opcode (inst_of (snd (TryRemoveTrivialPhi ph b opc p)) (num_insts p)) = opc"
    and "num_insts p \<in> set (instructions (block_of (snd (TryRemoveTrivialPhi ph b opc p)) b))"
    and "num_insts (snd (TryRemoveTrivialPhi ph b opc p)) = Suc (num_insts p)"
  by (simp_all add: TryRemoveTrivialPhi_undef [OF assms] InsertUndef_instructions)

lemma Args_new_phi: "Args (prog (new_phi b st)) (num_insts (prog st)) = []"
  by (simp add: new_phi_def Args_def)

lemma ReadVariable_entry:
  assumes "current_def st variable b = None" "b \<in> sealed_blocks st"
    "ImmediatePredecessors (prog st) b = []"
  shows "ReadVariable variable b st =
     Some (InstRef (Suc (num_insts (prog st))),
           WriteVariable variable b (InstRef (Suc (num_insts (prog st))))
             ((WriteVariable variable b (InstRef (num_insts (prog st))) (new_phi b st))
                \<lparr>prog := snd (TryRemoveTrivialPhi (num_insts (prog st)) b (UndefOpcode variable)
                                (prog (new_phi b st)))\<rparr>))"
proof -
  have a: "set (Args (prog (new_phi b st)) (num_insts (prog st))) \<subseteq> {InstRef (num_insts (prog st))}"
    by (simp add: Args_new_phi)
  have f: "fst (TryRemoveTrivialPhi (num_insts (prog st)) b (UndefOpcode variable) (prog (new_phi b st))) =
           InstRef (Suc (num_insts (prog st)))"
    using TryRemoveTrivialPhi_undef_facts(1) [OF a] by simp
  show ?thesis
    using assms f
    by (simp add: ReadVariable_def loop_action top_action_def prepare_action_def new_ReadState_def
          apply_action_def)
qed

lemma entry_read_program_facts:
  "opcode (inst_of (code entry_read_program) 0) = GetRegister"
  "opcode (inst_of (code entry_read_program) (Suc 0)) = Opcode.Return"
  "opcode (inst_of (code entry_read_program) 2) = SetRegister"
  "args (inst_of (code entry_read_program) 0) = [ImmReg (R 3)]"
  "args (inst_of (code entry_read_program) 2) = [ImmReg (R 2), InstRef 0]"
  "num_insts (code entry_read_program) = 3"
  "instructions (block_of (code entry_read_program) 0) = [0, 2, 1]"
  "ImmediatePredecessors (code entry_read_program) 0 = []"
  "post_order_blocks entry_read_program = [0]"
  by (simp_all add: entry_read_program_def mk_ir_def mk_inst_def mk_block_def
        ImmediatePredecessors_def)

text \<open>C9, as the code has it. The pass returns, and without an error, on every program
  whose instructions are well-formed and whose blocks can be ranked so that a block with
  exactly one immediate predecessor has a greater rank than that predecessor (no cycle
  runs through such blocks only); \<open>B\<close> is the finite set of the program's blocks. Where a
  read reaches no definition, that is where the phi made for it has no operand other
  than itself, \<^verbatim>\<open>TryRemoveTrivialPhi\<close> returns a new instruction with the undef opcode of
  the variable, placed in the block of the phi; so a read in a sealed block without
  predecessors and without a definition returns such an undef instruction and records it
  as the definition.\<close>

theorem SsaRewritePass_completes_undef:
  assumes "well_formed (code program)"
    and "finite B" and "set (post_order_blocks program) \<subseteq> B"
    and "\<forall>b\<in>B. set (ImmediatePredecessors (code program) b) \<subseteq> B"
    and "\<forall>b\<in>B. \<forall>q. ImmediatePredecessors (code program) b = [q] \<longrightarrow> rk q < (rk b :: nat)"
  shows "(\<exists>program'. SsaRewritePass program = Some (Inr program')) \<and>
         (\<forall>p ph b variable. set (Args p ph) \<subseteq> {InstRef ph} \<longrightarrow>
            fst (TryRemoveTrivialPhi ph b (UndefOpcode variable) p) = InstRef (num_insts p) \<and>
            opcode (inst_of (snd (TryRemoveTrivialPhi ph b (UndefOpcode variable) p)) (num_insts p)) =
              UndefOpcode variable \<and>
            num_insts p \<in> set (instructions (block_of (snd (TryRemoveTrivialPhi ph b (UndefOpcode variable) p)) b))) \<and>
         (\<forall>(st :: Pass) variable b.
            current_def st variable b = None \<and> b \<in> sealed_blocks st \<and>
            ImmediatePredecessors (prog st) b = [] \<longrightarrow>
            (\<exists>st'. ReadVariable variable b st = Some (InstRef (Suc (num_insts (prog st))), st') \<and>
                   opcode (inst_of (prog st') (Suc (num_insts (prog st)))) = UndefOpcode variable \<and>
                   Suc (num_insts (prog st)) \<in> set (instructions (block_of (prog st') b)) \<and>
                   current_def st' variable b = Some (InstRef (Suc (num_insts (prog st))))))"
proof (intro conjI allI impI)
  have r: "ranked B rk (ImmediatePredecessors (code program))"
    using assms(2,4,5) by (simp add: ranked_def)
  have "\<exists>st'. SsaRewritePass_loop (rev (post_order_blocks program)) (new_Pass (code program)) = Some (Inr st') \<and>
          extends (new_Pass (code program)) st'"
    by (rule SsaRewritePass_loop_returns [OF r]) (use assms(1,3) in \<open>simp_all add: new_Pass_def\<close>)
  then show "\<exists>program'. SsaRewritePass program = Some (Inr program')"
    by (auto simp: SsaRewritePass_def)
next
  fix p ph b variable
  assume "set (Args p ph) \<subseteq> {InstRef ph}"
  then show "fst (TryRemoveTrivialPhi ph b (UndefOpcode variable) p) = InstRef (num_insts p)"
    "opcode (inst_of (snd (TryRemoveTrivialPhi ph b (UndefOpcode variable) p)) (num_insts p)) =
       UndefOpcode variable"
    "num_insts p \<in> set (instructions (block_of (snd (TryRemoveTrivialPhi ph b (UndefOpcode variable) p)) b))"
    by (rule TryRemoveTrivialPhi_undef_facts)+
next
  fix st :: Pass and variable b
  assume a: "current_def st variable b = None \<and> b \<in> sealed_blocks st \<and>
             ImmediatePredecessors (prog st) b = []"
  let ?n = "num_insts (prog st)"
  have ar: "set (Args (prog (new_phi b st)) ?n) \<subseteq> {InstRef ?n}"
    by (simp add: Args_new_phi)
  from a have "ReadVariable variable b st =
     Some (InstRef (Suc ?n),
           WriteVariable variable b (InstRef (Suc ?n))
             ((WriteVariable variable b (InstRef ?n) (new_phi b st))
                \<lparr>prog := snd (TryRemoveTrivialPhi ?n b (UndefOpcode variable) (prog (new_phi b st)))\<rparr>))"
    by (intro ReadVariable_entry) simp_all
  moreover have "opcode (inst_of (snd (TryRemoveTrivialPhi ?n b (UndefOpcode variable) (prog (new_phi b st)))) (Suc ?n)) =
      UndefOpcode variable"
    using TryRemoveTrivialPhi_undef_facts(2) [OF ar] by simp
  moreover have "Suc ?n \<in> set (instructions (block_of (snd (TryRemoveTrivialPhi ?n b (UndefOpcode variable) (prog (new_phi b st)))) b))"
    using TryRemoveTrivialPhi_undef_facts(3) [OF ar] by simp
  ultimately show "\<exists>st'. ReadVariable variable b st = Some (InstRef (Suc ?n), st') \<and>
                   opcode (inst_of (prog st') (Suc ?n)) = UndefOpcode variable \<and>
                   Suc ?n \<in> set (instructions (block_of (prog st') b)) \<and>
                   current_def st' variable b = Some (InstRef (Suc ?n))"
    by (simp add: WriteVariable_def)
qed

text \<open>On \<open>entry_read_program\<close>, whose only block has no predecessor and reads R3 without a
  write: the pass returns; the read first gets the phi 3, and when the block is sealed
  the phi has no operand, so the undef instruction 4 is created in block 0 and takes the
  place of the phi in the \<^verbatim>\<open>SetRegister\<close>.\<close>

theorem SsaRewritePass_completes_undef_witness:
  "\<exists>program'. SsaRewritePass entry_read_program = Some (Inr program') \<and>
     opcode (inst_of (code program') 4) = UndefU32 \<and>
     4 \<in> set (instructions (block_of (code program') 0)) \<and>
     args (inst_of (code program') 2) = [ImmReg (R 2), InstRef 4] \<and>
     (\<exists>st'. ReadVariable (VReg (R 4)) 2 chain_pass = Some (InstRef (Suc 0), st') \<and>
            opcode (inst_of (prog st') (Suc 0)) = UndefU32 \<and>
            current_def st' (VReg (R 4)) 2 = Some (InstRef (Suc 0)))"
proof -
  define st0 where "st0 = new_Pass (code entry_read_program)"
  define st1 where "st1 = WriteVariable (VReg (R 3)) 0 (InstRef 3)
             ((new_phi 0 st0)\<lparr>incomplete_phis := (incomplete_phis st0)
                 (0 := insert_or_assign (VReg (R 3)) 3 (incomplete_phis st0 0))\<rparr>)"
  define st2 where "st2 = st1\<lparr>prog := ReplaceUsesWith 0 (InstRef 3) (prog st1)\<rparr>"
  define st3 where "st3 = WriteVariable (VReg (R 2)) 0 (InstRef 3) st2"
  define st4 where "st4 = st3\<lparr>prog := snd (TryRemoveTrivialPhi 3 0 UndefU32 (prog st3))\<rparr>"
  have wf: "well_formed (code entry_read_program)"
    by (simp add: entry_read_program_def well_formed_mk_ir well_formed_inst_def mk_inst_def)
  have th: "(\<exists>program'. SsaRewritePass entry_read_program = Some (Inr program')) \<and>
         (\<forall>p ph b variable. set (Args p ph) \<subseteq> {InstRef ph} \<longrightarrow>
            fst (TryRemoveTrivialPhi ph b (UndefOpcode variable) p) = InstRef (num_insts p) \<and>
            opcode (inst_of (snd (TryRemoveTrivialPhi ph b (UndefOpcode variable) p)) (num_insts p)) =
              UndefOpcode variable \<and>
            num_insts p \<in> set (instructions (block_of (snd (TryRemoveTrivialPhi ph b (UndefOpcode variable) p)) b))) \<and>
         (\<forall>(st :: Pass) variable b.
            current_def st variable b = None \<and> b \<in> sealed_blocks st \<and>
            ImmediatePredecessors (prog st) b = [] \<longrightarrow>
            (\<exists>st'. ReadVariable variable b st = Some (InstRef (Suc (num_insts (prog st))), st') \<and>
                   opcode (inst_of (prog st') (Suc (num_insts (prog st)))) = UndefOpcode variable \<and>
                   Suc (num_insts (prog st)) \<in> set (instructions (block_of (prog st') b)) \<and>
                   current_def st' variable b = Some (InstRef (Suc (num_insts (prog st))))))"
    using SsaRewritePass_completes_undef [where program = entry_read_program and B = "{0}" and rk = "\<lambda>b. b", OF wf]
    by (simp add: entry_read_program_facts)
  then obtain program' where p': "SsaRewritePass entry_read_program = Some (Inr program')"
    by blast
  have st0: "current_def st0 (VReg (R 3)) 0 = None" "0 \<notin> sealed_blocks st0" "num_insts (prog st0) = 3"
    "opcode (inst_of (prog st0) 0) = GetRegister" "Arg (prog st0) 0 0 = Inr (ImmReg (R 3))"
    "instructions (block_of (prog st0) 0) = [0, 2, 1]"
    by (simp_all add: st0_def new_Pass_def entry_read_program_facts Arg_def Args_def)
  have r: "ReadVariable (VReg (R 3)) 0 st0 = Some (InstRef 3, st1)"
    using ReadVariable_unsealed [OF st0(1,2)] by (simp add: st1_def st0(3))
  have v0: "VisitInst 0 0 st0 = Some (Inr st2)"
    using r by (simp add: VisitInst_def arg0_def read_replace_def st0 st2_def)
  have st2: "opcode (inst_of (prog st2) 2) = SetRegister"
    "args (inst_of (prog st2) 2) = [ImmReg (R 2), InstRef 3]"
    "opcode (inst_of (prog st2) 1) = Opcode.Return"
    by (simp_all add: st2_def st1_def st0_def WriteVariable_def new_phi_def new_Pass_def
          ReplaceUsesWith_def replace_value_def entry_read_program_facts)
  have v2: "VisitInst 0 2 st2 = Some (Inr st3)"
    by (simp add: VisitInst_def arg0_def write_arg_def Arg_def Args_def st2 st3_def)
  have op1: "opcode (inst_of (prog st3) 1) = Opcode.Return"
    using st2(3) by (simp add: st3_def)
  have v1: "VisitInst 0 1 st3 = Some (Inr st3)"
    unfolding VisitInst_def op1 by simp
  have loop: "VisitBlock_loop 0 [0, 2, 1] st0 = Some (Inr st3)"
    using v0 v2 v1 by simp
  have pr: "ImmediatePredecessors (prog st3) 0 = []"
    by (simp add: st3_def st2_def st1_def st0_def new_Pass_def entry_read_program_facts)
  have st3: "incomplete_phis st3 0 = [(VReg (R 3), 3)]"
    "num_insts (prog st3) = 4" "Args (prog st3) 3 = []"
    "args (inst_of (prog st3) 2) = [ImmReg (R 2), InstRef 3]"
    by (simp_all add: st3_def st2_def st1_def st0_def WriteVariable_def new_phi_def new_Pass_def
          ReplaceUsesWith_def replace_value_def Args_def entry_read_program_facts)
  have seal: "SealBlock 0 st3 = Some (st4\<lparr>sealed_blocks := insert 0 (sealed_blocks st4)\<rparr>)"
    by (simp add: SealBlock_def AddPhiOperands_def st3 pr st4_def split_beta)
  have "VisitBlock 0 st0 = Some (Inr (st4\<lparr>sealed_blocks := insert 0 (sealed_blocks st4)\<rparr>))"
    using loop seal by (simp add: VisitBlock_def st0)
  then have "SsaRewritePass entry_read_program =
      Some (Inr (entry_read_program\<lparr>code := prog st4\<rparr>))"
    by (simp add: SsaRewritePass_def entry_read_program_facts st0_def [symmetric])
  with p' have "program' = entry_read_program\<lparr>code := prog st4\<rparr>" by simp
  then have c: "code program' = prog st4" by simp
  have ar: "set (Args (prog st3) 3) \<subseteq> {InstRef 3}" by (simp add: st3)
  note th2 = th [THEN conjunct2, THEN conjunct1, rule_format]
  have ch: "current_def chain_pass (VReg (R 4)) 2 = None \<and> 2 \<in> sealed_blocks chain_pass \<and>
            ImmediatePredecessors (prog chain_pass) 2 = []"
    by (simp add: chain_pass_def ImmediatePredecessors_def mk_ir_def mk_block_def)
  from th [THEN conjunct2, THEN conjunct2, rule_format, OF ch]
  have e: "\<exists>st'. ReadVariable (VReg (R 4)) 2 chain_pass = Some (InstRef (Suc 0), st') \<and>
            opcode (inst_of (prog st') (Suc 0)) = UndefU32 \<and>
            current_def st' (VReg (R 4)) 2 = Some (InstRef (Suc 0))"
    by (auto simp: chain_pass_def mk_ir_def)
  from th2 [where p = "prog st3" and ph = 3 and b = 0 and variable = "VReg (R 3)", OF ar]
  have u: "opcode (inst_of (prog st4) 4) = UndefU32"
    "4 \<in> set (instructions (block_of (prog st4) 0))"
    by (simp_all add: st4_def st3)
  have "args (inst_of (prog st4) 2) = [ImmReg (R 2), InstRef 4]"
    by (simp add: st4_def TryRemoveTrivialPhi_undef [OF ar] st3 ReplaceUsesWith_def
          replace_value_def)
  with u c p' e show ?thesis by simp
qed

end
